theory Spec2Isabelle
  imports Complex_Main "HOL-Library.Multiset" "HOL-Library.List_Lexorder" "HOL-Library.Char_ord"
    "HOL-Library.Log_Nat"
begin

section \<open>Python values used by the bug router\<close>

text \<open>
  The repository is Python. Its dictionaries keep insertion order, and two of its sorts
  depend on that order, so a dictionary is an association list with distinct keys in
  insertion order. Lines-changed counts (GitHub's \<open>changes\<close> field, additions plus
  deletions) are natural numbers, unbounded as Python's integers are. Strings are lists
  of 8-bit characters; the character classes of the regular expressions are the ASCII
  ones.

  A Python float is an IEEE 754 double. A finite double is the rational number it
  denotes, and an operation on floats is the exact result rounded to the nearest double
  (\<open>fl\<close> below). The confidence of a routing decision (\<open>calculate_confidence\<close>) and the
  complexity score as the interpreter computes it (\<open>calculate_complexity_score_float\<close>)
  are in that arithmetic, the second with the \<open>OverflowError\<close> of an integer division
  whose result is beyond the doubles. The ownership analysis and the scoring loops carry
  the complexity score and the sums built from it as the exact values of the source's
  formulas (\<open>calculate_complexity_score\<close>), which the doubles of the interpreter follow
  to within rounding.
\<close>

datatype error =
    KeyError string
  | NameError string
  | OverflowError string
  | ZeroDivisionError string

type_synonym ('k, 'v) dict = "('k \<times> 'v) list"

text \<open>\<open>d[k] = v\<close>: an existing key keeps its position, a new key goes to the end.\<close>

fun dict_set :: "'k \<Rightarrow> 'v \<Rightarrow> ('k, 'v) dict \<Rightarrow> ('k, 'v) dict" where
  "dict_set k v [] = [(k, v)]"
| "dict_set k v ((k', v') # kvs) =
     (if k' = k then (k', v) # kvs else (k', v') # dict_set k v kvs)"

text \<open>
  \<open>d[k] = f(d[k])\<close> on a \<open>defaultdict\<close> whose factory returns \<open>dflt\<close>: a missing key is
  first inserted (at the end) with the default.
\<close>

fun dd_update :: "'v \<Rightarrow> 'k \<Rightarrow> ('v \<Rightarrow> 'v) \<Rightarrow> ('k, 'v) dict \<Rightarrow> ('k, 'v) dict" where
  "dd_update dflt k f [] = [(k, f dflt)]"
| "dd_update dflt k f ((k', v) # kvs) =
     (if k' = k then (k', f v) # kvs else (k', v) # dd_update dflt k f kvs)"

text \<open>\<open>sorted(d.items(), key=lambda x: x[1], reverse=True)\<close>: Python's sort is stable,
  also with \<open>reverse=True\<close>, so items with equal counts keep the order of \<open>d.items()\<close>.\<close>

definition sorted_by_value_desc :: "(string \<times> nat) list \<Rightarrow> (string \<times> nat) list" where
  "sorted_by_value_desc items = sort_key (\<lambda>x. - int (snd x)) items"

subsection \<open>Floats\<close>

text \<open>Rounding to the nearest integer, a tie going to the even one.\<close>

definition round_half_even :: "rat \<Rightarrow> int" where
  "round_half_even x =
     (let f = \<lfloor>x\<rfloor>; d = x - of_int f
      in if d < 1 / 2 then f else if 1 / 2 < d then f + 1 else if even f then f else f + 1)"

text \<open>The binade of a positive rational: the exponent of the power of two at or below it.\<close>

definition binade :: "rat \<Rightarrow> int" where
  "binade x = (if 1 \<le> x then bitlen \<lfloor>x\<rfloor> - 1 else - bitlen (\<lceil>1 / x\<rceil> - 1))"

text \<open>
  The spacing of the doubles around \<open>x\<close>: 53 significant bits, and never finer than
  \<open>2^-1074\<close>, the spacing of the subnormal numbers.
\<close>

definition quantum :: "rat \<Rightarrow> rat" where
  "quantum x = 2 powi (max (binade \<bar>x\<bar> - 52) (- 1074))"

text \<open>
  The double nearest to \<open>x\<close>, a tie going to the even significand. A float literal of
  the source denotes the double nearest to its decimal value: \<open>0.2\<close> is \<open>fl (2 / 10)\<close>.
  The exponent is not bounded above here; the one operation of the source whose result
  can leave the range of the doubles is the division of an integer, below.
\<close>

definition fl :: "rat \<Rightarrow> rat" where
  "fl x = (if x = 0 then 0 else of_int (round_half_even (x / quantum x)) * quantum x)"



section \<open>ownership\_analyzer.py\<close>

record FileOwnership =
  file_path :: string
  primary_owner :: "string option"
  secondary_owners :: "string list"
  last_modified :: nat
  modification_count :: nat
  complexity_score :: rat

record complexity_data =
  total_changes :: nat
  unique_contributors :: "string set"
  avg_change_size :: nat

subsection \<open>The GitHub API as the analyzer sees it\<close>

record commit =
  sha :: string
  author_email :: string

text \<open>A file entry of a commit; \<open>changes\<close> is read with \<open>.get('changes', 0)\<close>.\<close>

record file_info =
  filename :: string
  changes :: "nat option"

text \<open>The commit details; \<open>files\<close> is read with \<open>.get('files', [])\<close>, and a failed
  request gives the empty dictionary.\<close>

record commit_details =
  files :: "file_info list option"

text \<open>
  The remote host: for each request the status code and the decoded body. Times are
  seconds on some clock; \<open>now\<close> is what \<open>datetime.now()\<close> returns.
\<close>

record github =
  commits_page :: "string \<Rightarrow> nat \<Rightarrow> nat \<times> commit list"
  commit_detail :: "string \<Rightarrow> string \<Rightarrow> nat \<times> commit_details"
  last_commit_date :: "string \<Rightarrow> string \<Rightarrow> nat \<times> nat option"
  now :: nat

datatype request =
    ListCommits string nat
  | GetCommit string string
  | LastTouch string string

text \<open>The analyzer object: its commit cache, and the requests it has sent so far.\<close>

record analyzer =
  cache :: "(string, commit_details) dict"
  sent :: "request list"

definition new_analyzer :: analyzer where
  "new_analyzer = \<lparr>cache = [], sent = []\<rparr>"

text \<open>\<open>_get_recent_commits\<close>: pages 1 to 10, stopping at a status other than 200 or at an
  empty page.\<close>

function get_recent_commits_from ::
  "github \<Rightarrow> string \<Rightarrow> nat \<Rightarrow> commit list \<Rightarrow> analyzer \<Rightarrow> commit list \<times> analyzer" where
  "get_recent_commits_from g repo_name page all_commits a =
     (if page \<le> 10 then
        (let (status_code, commits) = commits_page g repo_name page;
             a' = a\<lparr>sent := sent a @ [ListCommits repo_name page]\<rparr>
         in if status_code \<noteq> 200 then (all_commits, a')
            else if commits = [] then (all_commits, a')
            else get_recent_commits_from g repo_name (page + 1) (all_commits @ commits) a')
      else (all_commits, a))"
  by pat_completeness auto
termination
  by (relation "measure (\<lambda>(g, repo_name, page, all_commits, a). 11 - page)") auto

definition get_recent_commits :: "github \<Rightarrow> string \<Rightarrow> analyzer \<Rightarrow> commit list \<times> analyzer" where
  "get_recent_commits g repo_name a = get_recent_commits_from g repo_name 1 [] a"

definition get_commit_details ::
  "github \<Rightarrow> string \<Rightarrow> string \<Rightarrow> analyzer \<Rightarrow> commit_details \<times> analyzer" where
  "get_commit_details g repo_name commit_sha a =
     (case map_of (cache a) commit_sha of
        Some d \<Rightarrow> (d, a)
      | None \<Rightarrow>
          (let (status_code, d) = commit_detail g repo_name commit_sha;
               a' = a\<lparr>sent := sent a @ [GetCommit repo_name commit_sha]\<rparr>
           in if status_code = 200
              then (d, a'\<lparr>cache := dict_set commit_sha d (cache a')\<rparr>)
              else (\<lparr>files = None\<rparr>, a')))"

definition get_file_last_modified ::
  "github \<Rightarrow> string \<Rightarrow> string \<Rightarrow> analyzer \<Rightarrow> nat \<times> analyzer" where
  "get_file_last_modified g repo_name path a =
     (let (status_code, date) = last_commit_date g repo_name path;
          a' = a\<lparr>sent := sent a @ [LastTouch repo_name path]\<rparr>
      in if status_code = 200
         then (case date of Some t \<Rightarrow> (t, a') | None \<Rightarrow> (now g, a'))
         else (now g, a'))"

subsection \<open>Complexity score\<close>

text \<open>The value of the formula of \<open>_calculate_complexity_score\<close>.\<close>

definition calculate_complexity_score :: "complexity_data \<Rightarrow> rat" where
  "calculate_complexity_score cd =
     (let base_score = min (of_nat (total_changes cd) / 100) 1;
          contributor_factor = min (of_nat (card (unique_contributors cd)) / 5) 1
      in (base_score * (7 / 10)) + (contributor_factor * (3 / 10)))"


subsection \<open>Accumulating the change events\<close>

record accumulators =
  file_ownership_acc :: "(string, (string, nat) dict) dict"
  developer_activity_acc :: "(string, nat) dict"
  file_complexity_acc :: "(string, complexity_data) dict"

definition empty_accumulators :: accumulators where
  "empty_accumulators =
     \<lparr>file_ownership_acc = [], developer_activity_acc = [], file_complexity_acc = []\<rparr>"

text \<open>The body of the inner loop over the files of one commit.\<close>

definition account_file :: "string \<Rightarrow> accumulators \<Rightarrow> file_info \<Rightarrow> accumulators" where
  "account_file author acc fi =
     (let path = filename fi;
          n = (case changes fi of Some c \<Rightarrow> c | None \<Rightarrow> 0);
          fo = dd_update [] path (dd_update 0 author (\<lambda>v. v + n)) (file_ownership_acc acc);
          da = dd_update 0 author (\<lambda>v. v + n) (developer_activity_acc acc);
          fc0 = (if map_of (file_complexity_acc acc) path = None
                 then dict_set path
                        \<lparr>total_changes = 0, unique_contributors = {}, avg_change_size = 0\<rparr>
                        (file_complexity_acc acc)
                 else file_complexity_acc acc);
          fc = map (\<lambda>(p, cd). if p = path
                      then (p, cd\<lparr>total_changes := total_changes cd + n,
                                  unique_contributors := insert author (unique_contributors cd)\<rparr>)
                      else (p, cd)) fc0
      in \<lparr>file_ownership_acc = fo, developer_activity_acc = da, file_complexity_acc = fc\<rparr>)"

text \<open>The outer loop over the commits: each commit's details are fetched first.\<close>

fun account_commits ::
  "github \<Rightarrow> string \<Rightarrow> commit list \<Rightarrow> accumulators \<Rightarrow> analyzer \<Rightarrow> accumulators \<times> analyzer" where
  "account_commits g repo_name [] acc a = (acc, a)"
| "account_commits g repo_name (c # cs) acc a =
     (let (details, a') = get_commit_details g repo_name (sha c) a;
          fs = (case files details of Some fs \<Rightarrow> fs | None \<Rightarrow> [])
      in account_commits g repo_name cs (foldl (account_file (author_email c)) acc fs) a')"

subsection \<open>Ownership records and the experts table\<close>

text \<open>
  One pass of the loop that fills \<open>ownership_map\<close>. The keyword arguments are evaluated
  in the order written, so the request for the last modification comes before the read
  of \<open>file_complexity[file_path]\<close>, which raises \<open>KeyError\<close> on a missing key.
\<close>

definition make_file_ownership ::
  "github \<Rightarrow> string \<Rightarrow> (string, complexity_data) dict \<Rightarrow> string \<Rightarrow> (string, nat) dict \<Rightarrow>
     analyzer \<Rightarrow> (error + FileOwnership) \<times> analyzer" where
  "make_file_ownership g repo_name file_complexity path contributors a =
     (let sorted_contributors = sorted_by_value_desc contributors;
          primary = (case sorted_contributors of [] \<Rightarrow> None | c # _ \<Rightarrow> Some (fst c));
          secondary = map fst (take 2 (drop 1 sorted_contributors));
          (modified, a') = get_file_last_modified g repo_name path a
      in case map_of file_complexity path of
           None \<Rightarrow> (Inl (KeyError path), a')
         | Some cd \<Rightarrow>
             (Inr \<lparr>file_path = path, primary_owner = primary, secondary_owners = secondary,
                   last_modified = modified,
                   modification_count = sum_list (map snd contributors),
                   complexity_score = calculate_complexity_score cd\<rparr>, a'))"

fun make_ownership_map ::
  "github \<Rightarrow> string \<Rightarrow> (string, complexity_data) dict \<Rightarrow> (string, (string, nat) dict) dict \<Rightarrow>
     (string, FileOwnership) dict \<Rightarrow> analyzer \<Rightarrow> (error + (string, FileOwnership) dict) \<times> analyzer" where
  "make_ownership_map g repo_name file_complexity [] ownership_map a = (Inr ownership_map, a)"
| "make_ownership_map g repo_name file_complexity ((path, contributors) # rest) ownership_map a =
     (case make_file_ownership g repo_name file_complexity path contributors a of
        (Inl e, a') \<Rightarrow> (Inl e, a')
      | (Inr fo, a') \<Rightarrow>
          make_ownership_map g repo_name file_complexity rest (dict_set path fo ownership_map) a')"

text \<open>\<open>s.split(sep)\<close> for a separator of one character, and \<open>sep.join(parts)\<close>.\<close>

fun split_on :: "char \<Rightarrow> string \<Rightarrow> string list" where
  "split_on sep [] = [[]]"
| "split_on sep (c # cs) =
     (if c = sep then [] # split_on sep cs
      else (case split_on sep cs of [] \<Rightarrow> [[c]] | p # ps \<Rightarrow> (c # p) # ps))"

fun join :: "string \<Rightarrow> string list \<Rightarrow> string" where
  "join sep [] = []"
| "join sep [p] = p"
| "join sep (p # q # ps) = p @ sep @ join sep (q # ps)"

definition directory_of :: "string \<Rightarrow> string" where
  "directory_of path = join ''/'' (butlast (split_on (CHR ''/'') path))"

definition file_ext_of :: "string \<Rightarrow> string" where
  "file_ext_of path =
     (if CHR ''.'' \<in> set path then last (split_on (CHR ''.'') path) else ''unknown'')"

definition credit_expert ::
  "string \<Rightarrow> (string, (string, nat) dict) dict \<Rightarrow> string \<times> nat \<Rightarrow> (string, (string, nat) dict) dict" where
  "credit_expert path experts cc =
     (let (contributor, n) = cc;
          e1 = dd_update [] (directory_of path) (dd_update 0 contributor (\<lambda>v. v + n)) experts
      in dd_update [] (''*.'' @ file_ext_of path) (dd_update 0 contributor (\<lambda>v. v + n)) e1)"

text \<open>\<open>_identify_experts\<close>: the first loop fills the table \<open>experts\<close>, the second ranks
  each of its entries.\<close>

definition experts_table ::
  "(string, (string, nat) dict) dict \<Rightarrow> (string, (string, nat) dict) dict" where
  "experts_table file_ownership =
     foldl (\<lambda>ex (path, ownership). foldl (credit_expert path) ex ownership) [] file_ownership"

definition identify_experts ::
  "(string, nat) dict \<Rightarrow> (string, (string, nat) dict) dict \<Rightarrow> (string, (string \<times> nat) list) dict" where
  "identify_experts developer_activity file_ownership =
     foldl (\<lambda>ranked (domain, contributors).
              dict_set domain (take 3 (sorted_by_value_desc contributors)) ranked)
       [] (experts_table file_ownership)"

record ownership_data =
  file_ownership :: "(string, FileOwnership) dict"
  developer_activity :: "(string, nat) dict"
  repository_experts :: "(string, (string \<times> nat) list) dict"

definition analyze_repository_ownership ::
  "github \<Rightarrow> string \<Rightarrow> analyzer \<Rightarrow> (error + ownership_data) \<times> analyzer" where
  "analyze_repository_ownership g repo_name a =
     (let (commits, a1) = get_recent_commits g repo_name a;
          (acc, a2) = account_commits g repo_name commits empty_accumulators a1
      in case make_ownership_map g repo_name (file_complexity_acc acc) (file_ownership_acc acc) [] a2 of
           (Inl e, a3) \<Rightarrow> (Inl e, a3)
         | (Inr ownership_map, a3) \<Rightarrow>
             (Inr \<lparr>file_ownership = ownership_map,
                   developer_activity = developer_activity_acc acc,
                   repository_experts =
                     identify_experts (developer_activity_acc acc) (file_ownership_acc acc)\<rparr>, a3))"

section \<open>intelligent\_router.py\<close>

subsection \<open>Text matching\<close>

text \<open>\<open>\w\<close>, \<open>\s\<close> and \<open>str.lower\<close> on ASCII.\<close>

definition is_word_char :: "char \<Rightarrow> bool" where
  "is_word_char c =
     (let n = (of_char c :: nat)
      in (48 \<le> n \<and> n \<le> 57) \<or> (65 \<le> n \<and> n \<le> 90) \<or> (97 \<le> n \<and> n \<le> 122) \<or> n = 95)"

definition is_space_char :: "char \<Rightarrow> bool" where
  "is_space_char c =
     (let n = (of_char c :: nat) in (9 \<le> n \<and> n \<le> 13) \<or> (28 \<le> n \<and> n \<le> 32))"

definition lower_char :: "char \<Rightarrow> char" where
  "lower_char c =
     (case map_of (zip ''ABCDEFGHIJKLMNOPQRSTUVWXYZ'' ''abcdefghijklmnopqrstuvwxyz'') c of
        Some l \<Rightarrow> l
      | None \<Rightarrow> c)"

definition lower :: "string \<Rightarrow> string" where
  "lower s = map lower_char s"

text \<open>\<open>k in s\<close> on strings.\<close>

fun contains :: "string \<Rightarrow> string \<Rightarrow> bool" where
  "contains k [] = (k = [])"
| "contains k (c # cs) = (take (length k) (c # cs) = k \<or> contains k cs)"

text \<open>
  The file pattern \<open>[\w\/\-\.]+\.(py|js|ts|java|go|rs|cpp|c|h)\<close>. At a position the
  character class takes the longest run it can and gives characters back one at a time
  until a dot and one of the alternatives, tried in the order written, follow. The
  pattern has one group, so \<open>re.findall\<close> returns the text of that group for each match:
  the match itself is only used to find where the next search starts.
\<close>

definition is_path_char :: "char \<Rightarrow> bool" where
  "is_path_char c = (is_word_char c \<or> c = CHR ''/'' \<or> c = CHR ''-'' \<or> c = CHR ''.'')"

definition file_extensions :: "string list" where
  "file_extensions = [''py'', ''js'', ''ts'', ''java'', ''go'', ''rs'', ''cpp'', ''c'', ''h'']"

definition match_extension :: "bool \<Rightarrow> string \<Rightarrow> string option" where
  "match_extension ignorecase s =
     (case find (\<lambda>e. (if ignorecase then lower (take (length e) s) else take (length e) s) = e)
             file_extensions of
        None \<Rightarrow> None
      | Some e \<Rightarrow> Some (take (length e) s))"

text \<open>The group's text and the length of the match, with the class taking at most \<open>n\<close>
  characters.\<close>

fun match_file_upto :: "bool \<Rightarrow> string \<Rightarrow> nat \<Rightarrow> (string \<times> nat) option" where
  "match_file_upto ignorecase s 0 = None"
| "match_file_upto ignorecase s (Suc n) =
     (case drop (Suc n) s of
        [] \<Rightarrow> match_file_upto ignorecase s n
      | c # rest \<Rightarrow>
          if c = CHR ''.'' then
            (case match_extension ignorecase rest of
               Some ext \<Rightarrow> Some (ext, Suc n + 1 + length ext)
             | None \<Rightarrow> match_file_upto ignorecase s n)
          else match_file_upto ignorecase s n)"

definition match_file :: "bool \<Rightarrow> string \<Rightarrow> (string \<times> nat) option" where
  "match_file ignorecase s = match_file_upto ignorecase s (length (takeWhile is_path_char s))"

lemma match_file_upto_consumes:
  "match_file_upto ic s n = Some (g, e) \<Longrightarrow> 0 < e \<and> s \<noteq> []"
  by (induction n) (auto split: list.splits if_splits option.splits)

lemma match_file_consumes: "match_file ic s = Some (g, e) \<Longrightarrow> length (drop e s) < length s"
  using match_file_upto_consumes [of ic s _ g e] by (auto simp: match_file_def)

function findall_files :: "bool \<Rightarrow> string \<Rightarrow> string list" where
  "findall_files ignorecase s =
     (case match_file ignorecase s of
        Some (g, e) \<Rightarrow> g # findall_files ignorecase (drop e s)
      | None \<Rightarrow> (case s of [] \<Rightarrow> [] | _ # cs \<Rightarrow> findall_files ignorecase cs))"
  by pat_completeness auto
termination
  by (relation "measure (\<lambda>(ic, s). length s)") (auto dest: match_file_consumes)

text \<open>
  The error pattern \<open>(\w*Error|\w*Exception)\<close>: the first alternative is tried with
  every length of the word run, longest first, before the second. The group is the whole
  match.
\<close>

fun match_word_then :: "string \<Rightarrow> string \<Rightarrow> nat \<Rightarrow> nat option" where
  "match_word_then lit s 0 = (if take (length lit) s = lit then Some (length lit) else None)"
| "match_word_then lit s (Suc n) =
     (if take (length lit) (drop (Suc n) s) = lit then Some (Suc n + length lit)
      else match_word_then lit s n)"

definition match_error :: "string \<Rightarrow> nat option" where
  "match_error s =
     (let run = length (takeWhile is_word_char s)
      in case match_word_then ''Error'' s run of
           Some e \<Rightarrow> Some e
         | None \<Rightarrow> match_word_then ''Exception'' s run)"

lemma match_word_then_consumes:
  "lit \<noteq> [] \<Longrightarrow> match_word_then lit s n = Some e \<Longrightarrow> 0 < e \<and> s \<noteq> []"
  by (induction n) (auto split: if_splits)

lemma match_error_consumes: "match_error s = Some e \<Longrightarrow> length (drop e s) < length s"
proof -
  assume m: "match_error s = Some e"
  then have "0 < e \<and> s \<noteq> []"
    by (auto simp: match_error_def Let_def split: option.splits
             dest: match_word_then_consumes [rotated])
  then show ?thesis by simp
qed

function findall_errors :: "string \<Rightarrow> string list" where
  "findall_errors s =
     (case match_error s of
        Some e \<Rightarrow> take e s # findall_errors (drop e s)
      | None \<Rightarrow> (case s of [] \<Rightarrow> [] | _ # cs \<Rightarrow> findall_errors cs))"
  by pat_completeness auto
termination
  by (relation "measure length") (auto dest: match_error_consumes)

text \<open>
  The function pattern \<open>def\s+(\w+)|function\s+(\w+)|(\w+)\s*\(\<close>. The classes \<open>\s\<close> and
  \<open>\w\<close> are disjoint and the bracket is in neither, so only the longest runs can match.
  Each match fills exactly one group, which is what the source keeps.
\<close>

definition match_keyword_name :: "string \<Rightarrow> string \<Rightarrow> (string \<times> nat) option" where
  "match_keyword_name kw s =
     (if take (length kw) s = kw then
        (let rest = drop (length kw) s;
             spaces = takeWhile is_space_char rest;
             name = takeWhile is_word_char (dropWhile is_space_char rest)
         in if spaces \<noteq> [] \<and> name \<noteq> [] then Some (name, length kw + length spaces + length name)
            else None)
      else None)"

definition match_call :: "string \<Rightarrow> (string \<times> nat) option" where
  "match_call s =
     (let name = takeWhile is_word_char s;
          rest = dropWhile is_word_char s;
          spaces = takeWhile is_space_char rest
      in if name \<noteq> [] \<and> take 1 (dropWhile is_space_char rest) = ''(''
         then Some (name, length name + length spaces + 1) else None)"

definition match_function :: "string \<Rightarrow> (string \<times> nat) option" where
  "match_function s =
     (case match_keyword_name ''def'' s of
        Some m \<Rightarrow> Some m
      | None \<Rightarrow>
          (case match_keyword_name ''function'' s of
             Some m \<Rightarrow> Some m
           | None \<Rightarrow> match_call s))"

lemma match_function_consumes:
  "match_function s = Some (g, e) \<Longrightarrow> length (drop e s) < length s"
proof -
  assume m: "match_function s = Some (g, e)"
  then have "0 < e \<and> s \<noteq> []"
    by (auto simp: match_function_def match_keyword_name_def match_call_def Let_def
             split: option.splits if_splits)
  then show ?thesis by simp
qed

function findall_functions :: "string \<Rightarrow> string list" where
  "findall_functions s =
     (case match_function s of
        Some (g, e) \<Rightarrow> g # findall_functions (drop e s)
      | None \<Rightarrow> (case s of [] \<Rightarrow> [] | _ # cs \<Rightarrow> findall_functions cs))"
  by pat_completeness auto
termination
  by (relation "measure length") (auto dest: match_function_consumes)

subsection \<open>The bug report and its context\<close>

text \<open>The dictionary \<open>bug_data\<close>: a key that is absent is \<open>None\<close>.\<close>

record bug_data =
  title :: "string option"
  description :: "string option"
  labels :: "string list option"
  repository :: "string option"
  affected_files :: "string list option"
  stack_trace :: "string option"
  priority :: "string option"

record bug_context =
  mentioned_files :: "string list"
  mentioned_functions :: "string list"
  mentioned_modules :: "string list"
  error_types :: "string list"
  affected_areas :: "string list"
  keywords' :: "string list"

definition area_keywords :: "(string \<times> string list) list" where
  "area_keywords =
     [(''authentication'', [''auth'', ''login'', ''token'', ''jwt'', ''oauth'']),
      (''database'', [''sql'', ''query'', ''database'', ''db'', ''migration'']),
      (''api'', [''api'', ''endpoint'', ''rest'', ''graphql'', ''request'']),
      (''frontend'', [''ui'', ''component'', ''render'', ''dom'', ''css'']),
      (''backend'', [''server'', ''service'', ''worker'', ''job'', ''queue'']),
      (''security'', [''security'', ''vulnerability'', ''xss'', ''csrf'', ''injection'']),
      (''performance'', [''slow'', ''performance'', ''memory'', ''cpu'', ''optimization''])]"

text \<open>\<open>bug_data['title']\<close> and \<open>bug_data['description']\<close> raise \<open>KeyError\<close> on an absent
  key; the stack trace is read only when present and not empty.\<close>

definition extract_bug_context :: "bug_data \<Rightarrow> error + bug_context" where
  "extract_bug_context bd =
     (case title bd of
        None \<Rightarrow> Inl (KeyError ''title'')
      | Some t \<Rightarrow>
          (case description bd of
             None \<Rightarrow> Inl (KeyError ''description'')
           | Some d \<Rightarrow>
               (let text = t @ '' '' @ d;
                    text_files = findall_files True text;
                    stack_files = (case stack_trace bd of
                                     None \<Rightarrow> []
                                   | Some st \<Rightarrow> if st = [] then [] else findall_files False st);
                    text_lower = lower text
                in Inr \<lparr>mentioned_files = text_files @ stack_files,
                        mentioned_functions = findall_functions text,
                        mentioned_modules = [],
                        error_types = findall_errors text,
                        affected_areas =
                          map fst (filter (\<lambda>(area, kws). \<exists>k \<in> set kws. contains k text_lower)
                                     area_keywords),
                        keywords' = []\<rparr>)))"

subsection \<open>Candidate discovery\<close>

text \<open>The value the \<open>candidates\<close> dictionary holds for a developer.\<close>

record candidate =
  ownership_score' :: rat
  expertise_score' :: rat
  relevance_score' :: rat
  files_owned' :: "string list"
  areas_of_expertise' :: "string list"

definition new_candidate :: candidate where
  "new_candidate =
     \<lparr>ownership_score' = 0, expertise_score' = 0, relevance_score' = 0,
      files_owned' = [], areas_of_expertise' = []\<rparr>"

definition credit_file :: "rat \<Rightarrow> string \<Rightarrow> candidate \<Rightarrow> candidate" where
  "credit_file amount path c =
     c\<lparr>ownership_score' := ownership_score' c + amount, files_owned' := files_owned' c @ [path]\<rparr>"

definition credit_area :: "rat \<Rightarrow> string \<Rightarrow> candidate \<Rightarrow> candidate" where
  "credit_area amount area c =
     c\<lparr>expertise_score' := expertise_score' c + amount,
       areas_of_expertise' := areas_of_expertise' c @ [area]\<rparr>"

text \<open>One pass of the loop over \<open>relevant_files\<close>. \<open>if primary:\<close> is false for \<open>None\<close> and
  for the empty string.\<close>

definition score_file ::
  "(string, FileOwnership) dict \<Rightarrow> (string, candidate) dict \<Rightarrow> string \<Rightarrow> (string, candidate) dict" where
  "score_file fo_map candidates path =
     (case map_of fo_map path of
        None \<Rightarrow> candidates
      | Some ownership \<Rightarrow>
          (let c1 = (case primary_owner ownership of
                       None \<Rightarrow> candidates
                     | Some primary \<Rightarrow>
                         if primary = [] then candidates
                         else dd_update new_candidate primary
                                (credit_file (complexity_score ownership * 3) path) candidates)
           in foldl (\<lambda>cs secondary.
                       dd_update new_candidate secondary
                         (credit_file (complexity_score ownership * 1) path) cs)
                c1 (secondary_owners ownership)))"

text \<open>One pass of the loop over the affected areas.\<close>

definition score_area ::
  "(string, (string \<times> nat) list) dict \<Rightarrow> (string, candidate) dict \<Rightarrow> string \<Rightarrow>
     (string, candidate) dict" where
  "score_area experts candidates area =
     (case map_of experts area of
        None \<Rightarrow> candidates
      | Some ranked \<Rightarrow>
          foldl (\<lambda>cs (expert, score).
                   dd_update new_candidate expert (credit_area (of_nat score * (1 / 2)) area) cs)
            candidates (take 3 ranked))"

record assignee_info =
  developer :: string
  total_score :: rat
  ownership_score :: rat
  expertise_score :: rat
  files_owned :: "string list"
  areas_of_expertise :: "string list"

text \<open>
  The statements of \<open>_find_potential_assignees\<close> from the first one on, with \<open>defaultdict\<close>
  standing for \<open>collections.defaultdict\<close>: the two scoring loops fill the table
  \<open>candidates\<close>, and the last loop turns its entries with a positive score into the
  result.
\<close>

definition candidate_table ::
  "bug_context \<Rightarrow> ownership_data \<Rightarrow> string list \<Rightarrow> (string, candidate) dict" where
  "candidate_table context ownership affected =
     (let relevant_files = affected @ mentioned_files context;
          c1 = foldl (score_file (file_ownership ownership)) [] relevant_files
      in foldl (score_area (repository_experts ownership)) c1 (affected_areas context))"

definition find_potential_assignees_body ::
  "bug_context \<Rightarrow> ownership_data \<Rightarrow> string list \<Rightarrow> assignee_info list" where
  "find_potential_assignees_body context ownership affected =
     map (\<lambda>(dev, scores).
            \<lparr>developer = dev,
             total_score = ownership_score' scores + expertise_score' scores,
             ownership_score = ownership_score' scores,
             expertise_score = expertise_score' scores,
             files_owned = files_owned' scores,
             areas_of_expertise = areas_of_expertise' scores\<rparr>)
       (filter (\<lambda>(dev, scores). ownership_score' scores > 0 \<or> expertise_score' scores > 0)
          (candidate_table context ownership affected))"

text \<open>
  The names the module \<open>intelligent_router\<close> binds at its top level: what its four import
  statements bring in, and its class. A name used in a method body is looked up there
  (and then among the builtins, which have no \<open>defaultdict\<close>) when the statement runs.
  The module \<open>ownership_analyzer\<close> imports \<open>defaultdict\<close> from \<open>collections\<close>; this one
  does not.
\<close>

definition router_module_names :: "string list" where
  "router_module_names =
     [''Dict'', ''List'', ''Optional'', ''Tuple'', ''datetime'', ''timedelta'',
      ''CodeOwnershipAnalyzer'', ''Developer'', ''re'', ''json'', ''IntelligentBugRouter'']"

definition analyzer_module_names :: "string list" where
  "analyzer_module_names =
     [''requests'', ''Dict'', ''List'', ''Tuple'', ''Optional'', ''datetime'', ''timedelta'',
      ''defaultdict'', ''Counter'', ''json'', ''dataclass'', ''Developer'', ''FileOwnership'',
      ''CodeOwnershipAnalyzer'']"

definition load_defaultdict :: "string list \<Rightarrow> error + unit" where
  "load_defaultdict module_names =
     (if ''defaultdict'' \<in> set module_names then Inr () else Inl (NameError ''defaultdict''))"

definition find_potential_assignees ::
  "bug_context \<Rightarrow> ownership_data \<Rightarrow> string list \<Rightarrow> error + assignee_info list" where
  "find_potential_assignees context ownership affected =
     (case load_defaultdict router_module_names of
        Inl e \<Rightarrow> Inl e
      | Inr _ \<Rightarrow> Inr (find_potential_assignees_body context ownership affected))"

subsection \<open>Ranking and selection\<close>

record ranked_assignee = assignee_info +
  final_score :: rat

definition priority_multiplier :: "string option \<Rightarrow> rat" where
  "priority_multiplier p =
     (case p of
        None \<Rightarrow> 1
      | Some s \<Rightarrow>
          if s = ''critical'' then 3 / 2
          else if s = ''high'' then 6 / 5
          else if s = ''medium'' then 1
          else if s = ''low'' then 4 / 5
          else 1)"

definition rank_assignees :: "assignee_info list \<Rightarrow> bug_data \<Rightarrow> ranked_assignee list" where
  "rank_assignees potential_assignees bd =
     (let multiplier = priority_multiplier (priority bd)
      in sort_key (\<lambda>x. - final_score x)
           (map (\<lambda>a. \<lparr>developer = developer a, total_score = total_score a,
                       ownership_score = ownership_score a,
                       expertise_score = expertise_score a,
                       files_owned = files_owned a,
                       areas_of_expertise = areas_of_expertise a,
                       final_score = total_score a * multiplier\<rparr>)
              potential_assignees))"

definition is_developer_available :: "string \<Rightarrow> bool" where
  "is_developer_available developer_email = True"

text \<open>\<open>_select_final_assignee\<close>, with the method \<open>_is_developer_available\<close> of the router
  object as the argument \<open>available\<close>.\<close>

definition select_final_assignee ::
  "(string \<Rightarrow> bool) \<Rightarrow> ranked_assignee list \<Rightarrow> string \<Rightarrow> ranked_assignee option" where
  "select_final_assignee available ranked_assignees repo_name =
     (if ranked_assignees = [] then None
      else (case find (\<lambda>a. available (developer a)) (take 3 ranked_assignees) of
              Some a \<Rightarrow> Some a
            | None \<Rightarrow> (case ranked_assignees of [] \<Rightarrow> None | r # _ \<Rightarrow> Some r)))"

subsection \<open>Confidence, reason, labels, complexity\<close>

text \<open>
  \<open>round(x, 2)\<close> on a float: the value of \<open>x\<close> rounded to the nearest multiple of one
  hundredth, a tie going to the even one, and the double nearest to that.
\<close>

definition round2 :: "rat \<Rightarrow> rat" where
  "round2 x = fl (of_int (round_half_even (x * 100)) / 100)"

text \<open>\<open>_calculate_confidence\<close>; \<open>final_score\<close> is a float.\<close>

definition calculate_confidence :: "ranked_assignee option \<Rightarrow> bug_context \<Rightarrow> rat" where
  "calculate_confidence assignee context =
     (case assignee of
        None \<Rightarrow> 0
      | Some a \<Rightarrow>
          (let base0 = min (fl (final_score a / 10)) 1;
               base1 = (if files_owned a \<noteq> [] then min (fl (base0 + fl (2 / 10))) 1 else base0);
               base2 = (if areas_of_expertise a \<noteq> [] then min (fl (base1 + fl (1 / 10))) 1
                        else base1)
           in round2 base2))"

text \<open>\<open>str(n)\<close> for a length.\<close>

definition digit_char :: "nat \<Rightarrow> char" where
  "digit_char d = ''0123456789'' ! d"

function str_nat :: "nat \<Rightarrow> string" where
  "str_nat n = (if n < 10 then [digit_char n] else str_nat (n div 10) @ [digit_char (n mod 10)])"
  by pat_completeness auto
termination
  by (relation "measure id") auto

definition generate_routing_reason :: "ranked_assignee option \<Rightarrow> bug_context \<Rightarrow> string" where
  "generate_routing_reason assignee context =
     (case assignee of
        None \<Rightarrow> ''No clear owner identified. Escalating to team lead.''
      | Some a \<Rightarrow>
          (let r1 = (if files_owned a \<noteq> []
                     then [''Primary owner of '' @ str_nat (length (files_owned a)) @ '' affected files'']
                     else []);
               r2 = (if areas_of_expertise a \<noteq> []
                     then [''Subject matter expert in: '' @ join '', '' (areas_of_expertise a)]
                     else []);
               r3 = (if ownership_score a > 5
                     then [''High code ownership score in affected areas''] else []);
               reasons = r1 @ r2 @ r3
           in if reasons \<noteq> [] then join ''; '' reasons
              else ''Best available match based on repository activity''))"

definition suggest_labels :: "bug_context \<Rightarrow> string list" where
  "suggest_labels context =
     map (\<lambda>area. ''area:'' @ area) (affected_areas context)
       @ (if error_types context \<noteq> [] then [''bug:error''] else [])"

definition estimate_complexity :: "bug_context \<Rightarrow> ownership_data \<Rightarrow> string" where
  "estimate_complexity context ownership =
     (let score :: rat =
            0 + of_nat (length (mentioned_files context)) * (1 / 2)
              + of_nat (length (affected_areas context)) * 1
              + of_nat (length (error_types context)) * (3 / 10)
      in if score < 1 then ''low''
         else if score < 3 then ''medium''
         else if score < 5 then ''high''
         else ''critical'')"

subsection \<open>The routing decision\<close>

record routing_decision =
  assigned_to :: "ranked_assignee option"
  backup_assignees :: "ranked_assignee list"
  confidence_score :: rat
  routing_reason :: string
  escalation_needed :: bool
  suggested_labels :: "string list"
  estimated_complexity :: string

text \<open>The dictionary built at the end of \<open>route_bug_report\<close>.\<close>

definition make_routing_decision ::
  "ranked_assignee option \<Rightarrow> ranked_assignee list \<Rightarrow> bug_context \<Rightarrow> ownership_data \<Rightarrow>
     routing_decision" where
  "make_routing_decision final_assignee ranked_assignees context ownership =
     \<lparr>assigned_to = final_assignee,
      backup_assignees = take 2 (drop 1 ranked_assignees),
      confidence_score = calculate_confidence final_assignee context,
      routing_reason = generate_routing_reason final_assignee context,
      escalation_needed = (final_assignee = None),
      suggested_labels = suggest_labels context,
      estimated_complexity = estimate_complexity context ownership\<rparr>"

text \<open>Steps 4 to 6 of \<open>route_bug_report\<close>: what it does with the candidates once
  \<open>_find_potential_assignees\<close> has returned them.\<close>

definition route_candidates ::
  "assignee_info list \<Rightarrow> bug_data \<Rightarrow> string \<Rightarrow> bug_context \<Rightarrow> ownership_data \<Rightarrow>
     routing_decision" where
  "route_candidates potential_assignees bd repo_name context ownership =
     (let ranked_assignees = rank_assignees potential_assignees bd;
          final_assignee = select_final_assignee is_developer_available ranked_assignees repo_name
      in make_routing_decision final_assignee ranked_assignees context ownership)"

text \<open>
  \<open>route_bug_report\<close>, with the analyzer object it holds: the result or the exception
  raised, and the analyzer afterwards (its cache and the requests sent).
\<close>

definition route_bug_report ::
  "github \<Rightarrow> analyzer \<Rightarrow> bug_data \<Rightarrow> (error + routing_decision) \<times> analyzer" where
  "route_bug_report g a bd =
     (case repository bd of
        None \<Rightarrow> (Inl (KeyError ''repository''), a)
      | Some repo_name \<Rightarrow>
          (case analyze_repository_ownership g repo_name a of
             (Inl e, a') \<Rightarrow> (Inl e, a')
           | (Inr ownership, a') \<Rightarrow>
               (case extract_bug_context bd of
                  Inl e \<Rightarrow> (Inl e, a')
                | Inr context \<Rightarrow>
                    (case find_potential_assignees context ownership
                            (case affected_files bd of Some fs \<Rightarrow> fs | None \<Rightarrow> []) of
                       Inl e \<Rightarrow> (Inl e, a')
                     | Inr potential_assignees \<Rightarrow>
                         (Inr (route_candidates potential_assignees bd repo_name context
                                 ownership), a')))))"

section \<open>Sample inputs\<close>

definition sample_assignee ::
  "string \<Rightarrow> rat \<Rightarrow> string list \<Rightarrow> string list \<Rightarrow> ranked_assignee" where
  "sample_assignee dev score fs areas =
     \<lparr>developer = dev, total_score = score, ownership_score = score, expertise_score = 0,
      files_owned = fs, areas_of_expertise = areas, final_score = score\<rparr>"

definition sample_ranking :: "ranked_assignee list" where
  "sample_ranking =
     [sample_assignee ''ann'' 4 [''a.py''] [], sample_assignee ''bob'' 3 [''a.py''] [],
      sample_assignee ''cy'' 2 [''b.py''] [], sample_assignee ''dee'' 1 [''b.py''] []]"

text \<open>
  One contributor: \<open>alice\<close> changed 80 lines of \<open>src/auth/login.py\<close> in one commit. The
  host answers every request with status 200; the second page of commits is empty.
\<close>

definition gh_alice :: github where
  "gh_alice =
     \<lparr>commits_page = (\<lambda>repo page. if page = 1
                        then (200, [\<lparr>sha = ''c1'', author_email = ''alice''\<rparr>]) else (200, [])),
      commit_detail = (\<lambda>repo s. (200, \<lparr>files = Some [\<lparr>filename = ''src/auth/login.py'',
                                                       changes = Some 80\<rparr>]\<rparr>)),
      last_commit_date = (\<lambda>repo path. (200, Some 1700000000)),
      now = 1700000500\<rparr>"


definition own_alice :: ownership_data where
  "own_alice =
     \<lparr>file_ownership =
        [(''src/auth/login.py'',
          \<lparr>file_path = ''src/auth/login.py'', primary_owner = Some ''alice'',
           secondary_owners = [], last_modified = 1700000000, modification_count = 80,
           complexity_score = 31 / 50\<rparr>)],
      developer_activity = [(''alice'', 80)],
      repository_experts = [(''src/auth'', [(''alice'', 80)]), (''*.py'', [(''alice'', 80)])]\<rparr>"



text \<open>A report that names the file in its title.\<close>

definition bug_login :: bug_data where
  "bug_login =
     \<lparr>title = Some ''Crash in src/auth/login.py'', description = Some ''login fails'',
      labels = None, repository = Some ''acme/web'', affected_files = None, stack_trace = None,
      priority = Some ''high''\<rparr>"

definition context_login :: bug_context where
  "context_login =
     \<lparr>mentioned_files = [''py''], mentioned_functions = [], mentioned_modules = [],
      error_types = [], affected_areas = [''authentication''], keywords' = []\<rparr>"

definition candidate_alice :: assignee_info where
  "candidate_alice =
     \<lparr>developer = ''alice'', total_score = 93 / 50, ownership_score = 93 / 50,
      expertise_score = 0, files_owned = [''src/auth/login.py''], areas_of_expertise = []\<rparr>"



text \<open>A repository without commits in the lookback period: the first page is empty.\<close>

definition gh_empty :: github where
  "gh_empty =
     \<lparr>commits_page = (\<lambda>repo page. (200, [])),
      commit_detail = (\<lambda>repo s. (404, \<lparr>files = None\<rparr>)),
      last_commit_date = (\<lambda>repo path. (200, None)),
      now = 1700000500\<rparr>"

definition empty_ownership :: ownership_data where
  "empty_ownership = \<lparr>file_ownership = [], developer_activity = [], repository_experts = []\<rparr>"






text \<open>A context that mentions the path itself, and the candidate that gets its credit
  twice.\<close>

definition context_path :: bug_context where
  "context_path =
     \<lparr>mentioned_files = [''src/auth/login.py''], mentioned_functions = [],
      mentioned_modules = [], error_types = [], affected_areas = [], keywords' = []\<rparr>"

definition candidate_alice_twice :: assignee_info where
  "candidate_alice_twice =
     \<lparr>developer = ''alice'', total_score = 93 / 25, ownership_score = 93 / 25,
      expertise_score = 0, files_owned = [''src/auth/login.py'', ''src/auth/login.py''],
      areas_of_expertise = []\<rparr>"

section \<open>Notions used in the lemmas on the scoring loops\<close>

text \<open>Every score increment records a file or an area.\<close>

definition credited :: "candidate \<Rightarrow> bool" where
  "credited c \<longleftrightarrow>
     (ownership_score' c \<noteq> 0 \<longrightarrow> files_owned' c \<noteq> [])
     \<and> (expertise_score' c \<noteq> 0 \<longrightarrow> areas_of_expertise' c \<noteq> [])"

definition nonneg_scores :: "candidate \<Rightarrow> bool" where
  "nonneg_scores c \<longleftrightarrow> 0 \<le> ownership_score' c \<and> 0 \<le> expertise_score' c"

text \<open>The ownership score a developer has in the table \<open>candidates\<close>: 0 when absent.\<close>

definition own_of :: "(string, candidate) dict \<Rightarrow> string \<Rightarrow> rat" where
  "own_of candidates dev =
     (case map_of candidates dev of None \<Rightarrow> 0 | Some c \<Rightarrow> ownership_score' c)"

text \<open>
  What one occurrence of a path in \<open>relevant_files\<close> adds to a developer's ownership
  score: three times the file's complexity score as its primary owner, and once for
  each time the developer is listed among its secondary owners.
\<close>

definition file_credit :: "(string, FileOwnership) dict \<Rightarrow> string \<Rightarrow> string \<Rightarrow> rat" where
  "file_credit fo_map dev path =
     (case map_of fo_map path of
        None \<Rightarrow> 0
      | Some ownership \<Rightarrow>
          (if primary_owner ownership = Some dev \<and> dev \<noteq> []
           then complexity_score ownership * 3 else 0)
          + of_nat (count_list (secondary_owners ownership) dev)
              * (complexity_score ownership * 1))"

section \<open>Lemmas\<close>

subsection \<open>Scores and rounding\<close>

lemma complexity_score_range:
  "0 \<le> calculate_complexity_score cd \<and> calculate_complexity_score cd \<le> 1"
  by (simp add: calculate_complexity_score_def Let_def min_def)

lemma round_half_even_mono: "x \<le> y \<Longrightarrow> round_half_even x \<le> round_half_even y"
proof -
  assume xy: "x \<le> y"
  have le: "\<lfloor>x\<rfloor> \<le> \<lfloor>y\<rfloor>" using xy by (rule floor_mono)
  show ?thesis
  proof (cases "\<lfloor>x\<rfloor> = \<lfloor>y\<rfloor>")
    case True
    then show ?thesis using xy by (auto simp: round_half_even_def Let_def)
  next
    case False
    then have "\<lfloor>x\<rfloor> + 1 \<le> \<lfloor>y\<rfloor>" using le by simp
    moreover have "round_half_even x \<le> \<lfloor>x\<rfloor> + 1" by (simp add: round_half_even_def Let_def)
    moreover have "\<lfloor>y\<rfloor> \<le> round_half_even y" by (simp add: round_half_even_def Let_def)
    ultimately show ?thesis by linarith
  qed
qed

lemma floor_rat_numeral: "\<lfloor>numeral a / numeral b :: rat\<rfloor> = numeral a div numeral b"
  using floor_divide_of_int_eq [of "numeral a" "numeral b", where ?'a = rat] by simp

lemma round_half_even_of_int: "round_half_even (of_int k) = k"
  by (simp add: round_half_even_def Let_def)

lemma round_half_even_minus: "round_half_even (- x) = - round_half_even x"
proof (cases "x = of_int \<lfloor>x\<rfloor>")
  case True
  then obtain k where "x = of_int k" by blast
  then have "- x = of_int (- k)" by simp
  then show ?thesis using \<open>x = of_int k\<close> round_half_even_of_int by metis
next
  case False
  define f where "f = \<lfloor>x\<rfloor>"
  have "of_int f \<le> x" "x < of_int f + 1" unfolding f_def by linarith+
  moreover have "x \<noteq> of_int f" using False by (simp add: f_def)
  ultimately have fx: "of_int f < x" "x < of_int f + 1" by linarith+
  then have "\<lfloor>- x\<rfloor> = - f - 1" by (intro floor_unique) auto
  then show ?thesis using fx
    by (auto simp: round_half_even_def Let_def f_def [symmetric])
qed

subsection \<open>Rounding to the nearest double\<close>

lemma binade_bounds:
  assumes "0 < x"
  shows "2 powi binade x \<le> x \<and> x < 2 powi (binade x + 1)"
proof (cases "1 \<le> x")
  case True
  define n where "n = \<lfloor>x\<rfloor>"
  have n: "0 < n" "of_int n \<le> x" "x < of_int n + 1" using True by (auto simp: n_def) linarith+
  have b: "2 ^ nat (bitlen n - 1) \<le> n" "n < 2 ^ nat (bitlen n)" using bitlen_bounds [OF n(1)] by auto
  have b1: "1 \<le> bitlen n" using n(1) bitlen_eq_zero_iff [of n] bitlen_nonneg [of n] by linarith
  have "(2::rat) powi (bitlen n - 1) = of_int (2 ^ nat (bitlen n - 1))"
    using b1 by (simp add: power_int_def)
  also have "\<dots> \<le> of_int n" using b(1) by (simp only: of_int_le_iff)
  finally have lo: "2 powi (bitlen n - 1) \<le> x" using n(2) by linarith
  have "n + 1 \<le> 2 ^ nat (bitlen n)" using b(2) by linarith
  then have "(of_int (n + 1) :: rat) \<le> of_int (2 ^ nat (bitlen n))" by (simp only: of_int_le_iff)
  moreover have "(2::rat) powi (bitlen n) = of_int (2 ^ nat (bitlen n))"
    using b1 by (simp add: power_int_def)
  ultimately have hi: "x < 2 powi (bitlen n - 1 + 1)" using n(3) by simp
  show ?thesis using lo hi True by (simp add: binade_def n_def)
next
  case False
  then have x1: "x < 1" by simp
  define m where "m = \<lceil>1 / x\<rceil> - 1"
  have ix: "1 < 1 / x" using assms x1 by simp
  have m: "0 < m" "of_int m < 1 / x" "1 / x \<le> of_int m + 1"
    using ix by (auto simp: m_def) linarith+
  have b: "2 ^ nat (bitlen m - 1) \<le> m" "m < 2 ^ nat (bitlen m)" using bitlen_bounds [OF m(1)] by auto
  have b1: "1 \<le> bitlen m" using m(1) bitlen_eq_zero_iff [of m] bitlen_nonneg [of m] by linarith
  have p: "(2::rat) powi (- bitlen m) = 1 / of_int (2 ^ nat (bitlen m))"
    using b1 by (simp add: power_int_def field_simps)
  have "m + 1 \<le> 2 ^ nat (bitlen m)" using b(2) by linarith
  then have "(of_int (m + 1) :: rat) \<le> of_int (2 ^ nat (bitlen m))" by (simp only: of_int_le_iff)
  then have "1 / x \<le> of_int (2 ^ nat (bitlen m))" using m(3) by simp
  then have lo: "2 powi (- bitlen m) \<le> x" using assms unfolding p
    by (simp add: field_simps)
  have p2: "(2::rat) powi (- bitlen m + 1) = 1 / of_int (2 ^ nat (bitlen m - 1))"
    using b1 by (cases "bitlen m = 1") (auto simp: power_int_def field_simps nat_diff_distrib)
  have "(of_int (2 ^ nat (bitlen m - 1)) :: rat) \<le> of_int m" using b(1) by (simp only: of_int_le_iff)
  then have "(of_int (2 ^ nat (bitlen m - 1)) :: rat) < 1 / x" using m(2) by linarith
  then have hi: "x < 2 powi (- bitlen m + 1)" using assms unfolding p2
    by (simp add: field_simps)
  show ?thesis using lo hi False by (simp add: binade_def m_def)
qed

lemma binade_unique:
  assumes "2 powi e \<le> x" "x < 2 powi (e + 1)"
  shows "binade x = e"
proof -
  have x: "0 < x" using assms(1) zero_less_power_int [of "2::rat" e] by linarith
  have b: "2 powi binade x \<le> x" "x < 2 powi (binade x + 1)" using binade_bounds [OF x] by auto
  have "(2::rat) powi e < 2 powi (binade x + 1)" using assms(1) b(2) by linarith
  then have 1: "e < binade x + 1"
    by (metis not_less power_int_increasing one_le_numeral)
  have "(2::rat) powi binade x < 2 powi (e + 1)" using assms(2) b(1) by linarith
  then have 2: "binade x < e + 1"
    by (metis not_less power_int_increasing one_le_numeral)
  show ?thesis using 1 2 by linarith
qed

lemma binade_mono:
  assumes "0 < x" "x \<le> y"
  shows "binade x \<le> binade y"
proof -
  have "2 powi binade x \<le> x" using binade_bounds [OF assms(1)] by blast
  moreover have "y < 2 powi (binade y + 1)" using binade_bounds [of y] assms by auto
  ultimately have "(2::rat) powi binade x < 2 powi (binade y + 1)" using assms(2) by linarith
  then have "binade x < binade y + 1"
    by (metis not_less power_int_increasing one_le_numeral)
  then show ?thesis by linarith
qed

lemma quantum_pos: "0 < quantum x"
  by (simp add: quantum_def)

lemma quantum_minus: "quantum (- x) = quantum x"
  by (simp add: quantum_def)

lemma fl_minus: "fl (- x) = - fl x"
  by (simp add: fl_def quantum_minus round_half_even_minus)

lemma fl_0: "fl 0 = 0"
  by (simp add: fl_def)

lemma fl_nonneg: "0 \<le> x \<Longrightarrow> 0 \<le> fl x"
proof -
  assume "0 \<le> x"
  then have "0 \<le> x / quantum x" using quantum_pos [of x] by simp
  then have "round_half_even 0 \<le> round_half_even (x / quantum x)" by (rule round_half_even_mono)
  then have "0 \<le> round_half_even (x / quantum x)" using round_half_even_of_int [of 0] by simp
  then show ?thesis using quantum_pos [of x] by (simp add: fl_def)
qed

text \<open>Rounding at a given spacing, and how it compares with a multiple of that spacing.\<close>

lemma round_at_le:
  assumes "x \<le> of_int k * q" "0 < q"
  shows "of_int (round_half_even (x / q)) * q \<le> of_int k * q"
proof -
  have "x / q \<le> of_int k" using assms by (simp add: field_simps)
  then have "round_half_even (x / q) \<le> k"
    using round_half_even_mono round_half_even_of_int by metis
  then show ?thesis using assms(2) by simp
qed

lemma round_at_ge:
  assumes "of_int k * q \<le> x" "0 < q"
  shows "of_int k * q \<le> of_int (round_half_even (x / q)) * q"
proof -
  have "of_int k \<le> x / q" using assms by (simp add: field_simps)
  then have "k \<le> round_half_even (x / q)"
    using round_half_even_mono round_half_even_of_int by metis
  then show ?thesis using assms(2) by simp
qed

lemma powi_as_multiple:
  assumes "j \<le> e"
  shows "(2::rat) powi e = of_int (2 ^ nat (e - j)) * 2 powi j"
proof -
  have "(2::rat) powi e = 2 powi ((e - j) + j)" by simp
  also have "\<dots> = 2 powi (e - j) * 2 powi j" by (subst power_int_add) simp_all
  also have "(2::rat) powi (e - j) = of_int (2 ^ nat (e - j))"
    using assms by (simp add: power_int_def)
  finally show ?thesis .
qed

lemma fl_mono_pos:
  assumes "0 < x" "x \<le> y"
  shows "fl x \<le> fl y"
proof -
  have y: "0 < y" using assms by linarith
  define ex where "ex = binade x"
  define ey where "ey = binade y"
  define qx where "qx = max (ex - 52) (- 1074)"
  define qy where "qy = max (ey - 52) (- 1074)"
  have e: "ex \<le> ey" unfolding ex_def ey_def using assms by (rule binade_mono)
  have flx: "fl x = of_int (round_half_even (x / 2 powi qx)) * 2 powi qx"
    using assms(1) by (simp add: fl_def quantum_def qx_def ex_def)
  have fly: "fl y = of_int (round_half_even (y / 2 powi qy)) * 2 powi qy"
    using y by (simp add: fl_def quantum_def qy_def ey_def)
  show ?thesis
  proof (cases "qx = qy")
    case True
    have "x / 2 powi qy \<le> y / 2 powi qy" using assms(2) by (simp add: divide_right_mono)
    then have "round_half_even (x / 2 powi qy) \<le> round_half_even (y / 2 powi qy)"
      by (rule round_half_even_mono)
    then show ?thesis unfolding flx fly True by simp
  next
    case False
    then have q: "qx < qy" "qy = ey - 52" "ex < ey" using e by (auto simp: qx_def qy_def)
    have bx: "x < 2 powi (ex + 1)" using binade_bounds [OF assms(1)] by (simp add: ex_def)
    have by': "2 powi ey \<le> y" using binade_bounds [OF y] by (simp add: ey_def)
    have "(2::rat) powi (ex + 1) \<le> 2 powi ey" using q(3) by (intro power_int_increasing) auto
    then have xB: "x \<le> 2 powi ey" using bx by linarith
    have Bx: "(2::rat) powi ey = of_int (2 ^ nat (ey - qx)) * 2 powi qx"
      using q by (intro powi_as_multiple) linarith
    have By: "(2::rat) powi ey = of_int (2 ^ nat (ey - qy)) * 2 powi qy"
      using q by (intro powi_as_multiple) linarith
    have "fl x \<le> 2 powi ey"
      unfolding flx using xB unfolding Bx by (intro round_at_le) simp_all
    moreover have "2 powi ey \<le> fl y"
      unfolding fly using by' unfolding By by (intro round_at_ge) simp_all
    ultimately show ?thesis by linarith
  qed
qed

lemma fl_mono: "x \<le> y \<Longrightarrow> fl x \<le> fl y"
proof -
  assume xy: "x \<le> y"
  consider "0 < x" | "x \<le> 0" "0 \<le> y" | "y < 0" by linarith
  then show ?thesis
  proof cases
    case 1
    then show ?thesis using xy by (rule fl_mono_pos)
  next
    case 2
    have "fl x \<le> 0" using fl_nonneg [of "- x"] 2(1) by (simp add: fl_minus)
    moreover have "0 \<le> fl y" using 2(2) by (rule fl_nonneg)
    ultimately show ?thesis by linarith
  next
    case 3
    then have "fl (- y) \<le> fl (- x)" using xy by (intro fl_mono_pos) auto
    then show ?thesis by (simp add: fl_minus)
  qed
qed

text \<open>Numbers with at most 53 significant bits at an exponent in range are doubles.\<close>

lemma fl_representable_pos:
  assumes "0 < k" "k < 2 ^ 53" "- 1074 \<le> j"
  shows "fl (of_int k * 2 powi j) = of_int k * 2 powi j"
proof -
  define y :: rat where "y = of_int k * 2 powi j"
  have y: "0 < y" using assms(1) by (simp add: y_def)
  define q where "q = max (binade y - 52) (- 1074)"
  have "of_int k < (2::rat) ^ 53" using assms(2) by (metis of_int_less_iff of_int_numeral of_int_power)
  then have "y < 2 ^ 53 * 2 powi j" by (simp add: y_def)
  also have "\<dots> = 2 powi (53 + j)" by (subst power_int_add) simp_all
  finally have "y < 2 powi (53 + j)" .
  moreover have "2 powi binade y \<le> y" using binade_bounds [OF y] by blast
  ultimately have "(2::rat) powi binade y < 2 powi (53 + j)" by linarith
  then have "binade y < 53 + j" by (metis not_less power_int_increasing one_le_numeral)
  then have qj: "q \<le> j" using assms(3) by (simp add: q_def)
  have "(2::rat) powi j = of_int (2 ^ nat (j - q)) * 2 powi q" using qj by (rule powi_as_multiple)
  then have "y / 2 powi q = of_int (k * 2 ^ nat (j - q))" by (simp add: y_def)
  then have "round_half_even (y / 2 powi q) = k * 2 ^ nat (j - q)"
    by (simp only: round_half_even_of_int)
  then have "of_int (round_half_even (y / 2 powi q)) * (2::rat) powi q
               = of_int k * (of_int (2 ^ nat (j - q)) * 2 powi q)"
    by simp
  also have "\<dots> = y"
    using \<open>(2::rat) powi j = of_int (2 ^ nat (j - q)) * 2 powi q\<close> by (simp add: y_def)
  finally show ?thesis using y by (simp add: fl_def quantum_def q_def y_def [symmetric])
qed

lemma fl_representable:
  assumes "\<bar>k\<bar> \<le> 2 ^ 53" "- 1074 \<le> j"
  shows "fl (of_int k * 2 powi j) = of_int k * 2 powi j"
proof -
  have pos: "fl (of_int n * 2 powi j) = of_int n * 2 powi j" if "0 < n" "n \<le> 2 ^ 53" for n :: int
  proof (cases "n = 2 ^ 53")
    case False
    then show ?thesis using that assms(2) by (intro fl_representable_pos) auto
  next
    case True
    have "(of_int n :: rat) * 2 powi j = of_int (2 ^ 52) * 2 powi (j + 1)"
      unfolding True by (subst power_int_add) simp_all
    moreover have "fl (of_int (2 ^ 52) * 2 powi (j + 1)) = of_int (2 ^ 52) * 2 powi (j + 1)"
      using assms(2) by (intro fl_representable_pos) auto
    ultimately show ?thesis by simp
  qed
  consider "k = 0" | "0 < k" | "k < 0" by linarith
  then show ?thesis
  proof cases
    case 1
    then show ?thesis by (simp add: fl_0)
  next
    case 2
    then show ?thesis using assms(1) by (intro pos) auto
  next
    case 3
    then have "fl (of_int (- k) * 2 powi j) = of_int (- k) * 2 powi j"
      using assms(1) by (intro pos) auto
    then show ?thesis using fl_minus [of "of_int k * 2 powi j"] by simp
  qed
qed

lemma fl_1: "fl 1 = 1"
  using fl_representable [of 1 0] by simp

lemma fl_idem: "fl (fl x) = fl x"
proof -
  have pos: "fl (fl x) = fl x" if x: "0 < x" for x
  proof -
    define e where "e = binade x"
    define q where "q = max (e - 52) (- 1074)"
    define k where "k = round_half_even (x / 2 powi q)"
    have flx: "fl x = of_int k * 2 powi q"
      using x by (simp add: fl_def quantum_def q_def e_def k_def)
    have "x < 2 powi (e + 1)" using binade_bounds [OF x] by (simp add: e_def)
    also have "(2::rat) powi (e + 1) \<le> 2 powi (53 + q)"
      by (intro power_int_increasing) (auto simp: q_def)
    also have "(2::rat) powi (53 + q) = of_int (2 ^ 53) * 2 powi q"
      by (subst power_int_add) simp_all
    finally have "x \<le> of_int (2 ^ 53) * 2 powi q" by simp
    then have "of_int k * 2 powi q \<le> of_int (2 ^ 53) * (2::rat) powi q"
      unfolding k_def by (intro round_at_le) simp_all
    then have k1: "k \<le> 2 ^ 53" by simp
    have "of_int 0 * 2 powi q \<le> x" using x by simp
    then have "of_int 0 * 2 powi q \<le> of_int k * (2::rat) powi q"
      unfolding k_def by (intro round_at_ge) simp_all
    moreover have "0 < (2::rat) powi q" by simp
    ultimately have k0: "0 \<le> k" by (simp add: zero_le_mult_iff not_le)
    show ?thesis unfolding flx using k0 k1 by (intro fl_representable) (auto simp: q_def)
  qed
  consider "x = 0" | "0 < x" | "x < 0" by linarith
  then show ?thesis
  proof cases
    case 1
    then show ?thesis by (simp add: fl_0)
  next
    case 2
    then show ?thesis by (rule pos)
  next
    case 3
    then have "fl (fl (- x)) = fl (- x)" by (intro pos) simp
    then show ?thesis by (simp add: fl_minus)
  qed
qed

text \<open>Evaluating \<open>fl\<close> once the binade is known.\<close>

lemma fl_in_binade:
  assumes "2 powi e \<le> x" "x < 2 powi (e + 1)"
  shows "fl x = of_int (round_half_even (x / 2 powi (max (e - 52) (- 1074))))
                  * 2 powi (max (e - 52) (- 1074))"
proof -
  have x: "0 < x" using assms(1) zero_less_power_int [of "2::rat" e] by linarith
  have "binade \<bar>x\<bar> = e" using binade_unique [OF assms] x by simp
  then show ?thesis using x by (simp add: fl_def quantum_def)
qed

text \<open>Evaluating \<open>fl\<close> below 2, at a scale that is a numeral.\<close>

lemma fl_below_two:
  assumes "1 \<le> x * 2 ^ m" "x * 2 ^ m < 2" "m \<le> 1022" "s = 2 ^ (m + 52)"
  shows "fl x = of_int (round_half_even (x * s)) / s"
proof -
  have e: "(2::rat) powi (- int m) = 1 / 2 ^ m" by (simp add: power_int_def field_simps)
  have e1: "(2::rat) powi (- int m + 1) = 2 / 2 ^ m"
    by (subst power_int_add) (simp_all add: e)
  have 1: "2 powi (- int m) \<le> x" unfolding e using assms(1) by (simp add: field_simps)
  have 2: "x < 2 powi (- int m + 1)" unfolding e1 using assms(2) by (simp add: field_simps)
  have q: "max (- int m - 52) (- 1074) = - int (m + 52)" using assms(3) by simp
  have p: "(2::rat) powi (- int (m + 52)) = 1 / s"
    unfolding assms(4) by (simp add: power_int_def field_simps)
  show ?thesis using fl_in_binade [OF 1 2] unfolding q p by simp
qed

lemma fl_value:
  assumes "1 \<le> x * 2 ^ m" "x * 2 ^ m < 2" "m \<le> 1022" "s = 2 ^ (m + 52)"
    "round_half_even (x * s) = k"
  shows "fl x = of_int k / s"
  using fl_below_two [OF assms(1-4)] assms(5) by simp

subsection \<open>Rounding to two decimal places\<close>

lemma round2_mono: "x \<le> y \<Longrightarrow> round2 x \<le> round2 y"
proof -
  assume "x \<le> y"
  then have "x * 100 \<le> y * 100" by simp
  then have "round_half_even (x * 100) \<le> round_half_even (y * 100)"
    by (rule round_half_even_mono)
  then have "(of_int (round_half_even (x * 100)) :: rat) / 100
               \<le> of_int (round_half_even (y * 100)) / 100"
    by (simp add: divide_right_mono)
  then show ?thesis unfolding round2_def by (rule fl_mono)
qed

lemma round2_hundredth: "round2 (of_int k / 100) = fl (of_int k / 100)"
  by (simp add: round2_def round_half_even_of_int)

lemma round2_0: "round2 0 = 0"
  using round2_hundredth [of 0] by (simp add: fl_0)

lemma round2_1: "round2 1 = 1"
  using round2_hundredth [of 100] by (simp add: fl_1)

lemma round2_hundredths:
  assumes "0 \<le> x" "x \<le> 1"
  shows "\<exists>k. 0 \<le> k \<and> k \<le> 100 \<and> round2 x = fl (of_int k / 100)"
proof -
  have "round_half_even (of_int 0) \<le> round_half_even (x * 100)"
    using assms(1) by (intro round_half_even_mono) simp
  moreover have "round_half_even (x * 100) \<le> round_half_even (of_int 100)"
    using assms(2) by (intro round_half_even_mono) simp
  ultimately have "0 \<le> round_half_even (x * 100) \<and> round_half_even (x * 100) \<le> 100"
    by (simp only: round_half_even_of_int)
  then show ?thesis unfolding round2_def by blast
qed

subsection \<open>One conditional increment of the confidence\<close>

lemma fl_min_1: "fl (min (fl x) 1) = min (fl x) 1"
  by (simp add: min_def fl_idem fl_1)

lemma bump_double:
  assumes "fl b = b"
  shows "fl (if p then min (fl (b + c)) 1 else b) = (if p then min (fl (b + c)) 1 else b)"
  using assms by (simp add: fl_min_1)

lemma bump_le_1: "b \<le> 1 \<Longrightarrow> (if p then min (fl (b + c)) 1 else b) \<le> 1"
  by simp

lemma bump_ge_0:
  assumes "0 \<le> b" "0 \<le> c"
  shows "0 \<le> (if p then min (fl (b + c)) 1 else b)"
  using assms fl_nonneg [of "b + c"] by simp

lemma bump_mono:
  assumes "b \<le> b'" "p \<longrightarrow> p'" "fl b' = b'" "b' \<le> 1" "0 \<le> c"
  shows "(if p then min (fl (b + c)) 1 else b) \<le> (if p' then min (fl (b' + c)) 1 else b')"
proof -
  have 1: "fl (b + c) \<le> fl (b' + c)" using assms(1) by (intro fl_mono) simp
  have "fl b' \<le> fl (b' + c)" using assms(5) by (intro fl_mono) simp
  then have 2: "b' \<le> fl (b' + c)" by (simp only: assms(3))
  show ?thesis using 1 2 assms(1,2,4) by (auto simp: min_def)
qed

subsection \<open>The float literals\<close>

lemma fl_two_tenths: "fl (2 / 10) = 3602879701896397 / 18014398509481984"
proof -
  have "fl (2 / 10) = of_int 7205759403792794 / 36028797018963968"
    by (rule fl_value [where m = 3])
       (simp_all add: round_half_even_def floor_rat_numeral Let_def)
  then show ?thesis by simp
qed

lemma fl_one_tenth: "fl (1 / 10) = 3602879701896397 / 36028797018963968"
proof -
  have "fl (1 / 10) = of_int 7205759403792794 / 72057594037927936"
    by (rule fl_value [where m = 4])
       (simp_all add: round_half_even_def floor_rat_numeral Let_def)
  then show ?thesis by simp
qed




subsection \<open>The confidence\<close>

lemma calculate_confidence_Some:
  "calculate_confidence (Some a) ctx =
     round2 (let c0 = min (fl (final_score a / 10)) 1;
                 c1 = (if files_owned a \<noteq> [] then min (fl (c0 + fl (2 / 10))) 1 else c0)
             in if areas_of_expertise a \<noteq> [] then min (fl (c1 + fl (1 / 10))) 1 else c1)"
  by (simp add: calculate_confidence_def Let_def)

lemma fl_literal_nonneg: "0 \<le> fl (2 / 10)" "0 \<le> fl (1 / 10)"
  by (rule fl_nonneg, simp)+

lemma calculate_confidence_le_1: "calculate_confidence x ctx \<le> 1"
proof (cases x)
  case None
  then show ?thesis by (simp add: calculate_confidence_def)
next
  case (Some a)
  define b where "b = (let c0 = min (fl (final_score a / 10)) 1;
                 c1 = (if files_owned a \<noteq> [] then min (fl (c0 + fl (2 / 10))) 1 else c0)
             in if areas_of_expertise a \<noteq> [] then min (fl (c1 + fl (1 / 10))) 1 else c1)"
  have "b \<le> 1" by (simp add: b_def Let_def)
  then have "round2 b \<le> round2 1" by (rule round2_mono)
  moreover have "calculate_confidence x ctx = round2 b"
    using Some by (simp only: calculate_confidence_Some b_def)
  ultimately show ?thesis by (simp only: round2_1)
qed

lemma confidence_base_range:
  assumes "0 \<le> final_score a"
  shows "0 \<le> (let c0 = min (fl (final_score a / 10)) 1;
                 c1 = (if files_owned a \<noteq> [] then min (fl (c0 + fl (2 / 10))) 1 else c0)
             in if areas_of_expertise a \<noteq> [] then min (fl (c1 + fl (1 / 10))) 1 else c1)
       \<and> (let c0 = min (fl (final_score a / 10)) 1;
                 c1 = (if files_owned a \<noteq> [] then min (fl (c0 + fl (2 / 10))) 1 else c0)
             in if areas_of_expertise a \<noteq> [] then min (fl (c1 + fl (1 / 10))) 1 else c1) \<le> 1"
proof -
  define c0 where "c0 = min (fl (final_score a / 10)) 1"
  define c1 where "c1 = (if files_owned a \<noteq> [] then min (fl (c0 + fl (2 / 10))) 1 else c0)"
  define c2 where "c2 = (if areas_of_expertise a \<noteq> [] then min (fl (c1 + fl (1 / 10))) 1 else c1)"
  have 0: "0 \<le> c0" "c0 \<le> 1" using assms fl_nonneg [of "final_score a / 10"] by (simp_all add: c0_def)
  have 1: "0 \<le> c1" unfolding c1_def using 0(1) fl_literal_nonneg(1) by (rule bump_ge_0)
  have u1: "c1 \<le> 1" unfolding c1_def using 0(2) by (rule bump_le_1)
  have 2: "0 \<le> c2" unfolding c2_def using 1 fl_literal_nonneg(2) by (rule bump_ge_0)
  have u2: "c2 \<le> 1" unfolding c2_def using u1 by (rule bump_le_1)
  show ?thesis using 2 u2 unfolding Let_def c0_def c1_def c2_def by blast
qed

lemma calculate_confidence_ge_0:
  assumes "0 \<le> final_score a"
  shows "0 \<le> calculate_confidence (Some a) ctx"
proof -
  have "round2 0 \<le> calculate_confidence (Some a) ctx"
    unfolding calculate_confidence_Some
    using confidence_base_range [OF assms] by (intro round2_mono) blast
  then show ?thesis by (simp only: round2_0)
qed

lemma calculate_confidence_hundredths:
  assumes "0 \<le> final_score a"
  shows "\<exists>k. 0 \<le> k \<and> k \<le> 100 \<and> calculate_confidence (Some a) ctx = fl (of_int k / 100)"
  unfolding calculate_confidence_Some
  using confidence_base_range [OF assms] by (intro round2_hundredths) blast+

lemma calculate_confidence_mono:
  assumes "final_score a \<le> final_score b"
    and "files_owned a \<noteq> [] \<longrightarrow> files_owned b \<noteq> []"
    and "areas_of_expertise a \<noteq> [] \<longrightarrow> areas_of_expertise b \<noteq> []"
  shows "calculate_confidence (Some a) ctx \<le> calculate_confidence (Some b) ctx'"
proof -
  define a0 where "a0 = min (fl (final_score a / 10)) 1"
  define a1 where "a1 = (if files_owned a \<noteq> [] then min (fl (a0 + fl (2 / 10))) 1 else a0)"
  define a2 where "a2 = (if areas_of_expertise a \<noteq> [] then min (fl (a1 + fl (1 / 10))) 1 else a1)"
  define b0 where "b0 = min (fl (final_score b / 10)) 1"
  define b1 where "b1 = (if files_owned b \<noteq> [] then min (fl (b0 + fl (2 / 10))) 1 else b0)"
  define b2 where "b2 = (if areas_of_expertise b \<noteq> [] then min (fl (b1 + fl (1 / 10))) 1 else b1)"
  have "fl (final_score a / 10) \<le> fl (final_score b / 10)"
    using assms(1) by (intro fl_mono) simp
  then have 0: "a0 \<le> b0" by (auto simp: a0_def b0_def min_def)
  have d0: "fl b0 = b0" "b0 \<le> 1" by (simp_all add: b0_def fl_min_1)
  have 1: "a1 \<le> b1"
    unfolding a1_def b1_def using 0 assms(2) d0 fl_literal_nonneg(1) by (rule bump_mono)
  have d1: "fl b1 = b1" "b1 \<le> 1"
    unfolding b1_def using d0 by (simp_all add: fl_min_1)
  have 2: "a2 \<le> b2"
    unfolding a2_def b2_def using 1 assms(3) d1 fl_literal_nonneg(2) by (rule bump_mono)
  have "calculate_confidence (Some a) ctx = round2 a2"
    by (simp add: calculate_confidence_def Let_def a0_def a1_def a2_def)
  moreover have "calculate_confidence (Some b) ctx' = round2 b2"
    by (simp add: calculate_confidence_def Let_def b0_def b1_def b2_def)
  ultimately show ?thesis using round2_mono [OF 2] by (simp only:)
qed

subsection \<open>The complexity score in float arithmetic\<close>










subsection \<open>Selection of the final assignee\<close>

lemma select_final_assignee_None:
  "select_final_assignee available ranked repo = None \<longleftrightarrow> ranked = []"
  by (auto simp: select_final_assignee_def split: option.splits list.splits)

lemma select_final_assignee_first:
  assumes "i < min 3 (length ranked)" "available (developer (ranked ! i))"
    "\<forall>j<i. \<not> available (developer (ranked ! j))"
  shows "select_final_assignee available ranked repo = Some (ranked ! i)"
proof -
  have "find (\<lambda>a. available (developer a)) (take 3 ranked) = Some (ranked ! i)"
    unfolding find_Some_iff using assms by (intro exI [of _ i]) auto
  moreover have "ranked \<noteq> []" using assms(1) by auto
  ultimately show ?thesis by (simp add: select_final_assignee_def)
qed

lemma select_final_assignee_fallback:
  assumes "ranked \<noteq> []" "\<forall>i < min 3 (length ranked). \<not> available (developer (ranked ! i))"
  shows "select_final_assignee available ranked repo = Some (hd ranked)"
proof -
  have "find (\<lambda>a. available (developer a)) (take 3 ranked) = None"
    unfolding find_None_iff using assms(2) by (auto simp: in_set_conv_nth)
  then show ?thesis using assms(1)
    by (cases ranked) (simp_all add: select_final_assignee_def)
qed

lemma select_final_assignee_always_available:
  "select_final_assignee is_developer_available ranked repo =
     (case ranked of [] \<Rightarrow> None | r # _ \<Rightarrow> Some r)"
  by (cases ranked) (simp_all add: select_final_assignee_def is_developer_available_def)

subsection \<open>Dictionaries\<close>

lemma map_of_dd_update:
  "map_of (dd_update dflt k f d) k' =
     (if k' = k then Some (f (case map_of d k of None \<Rightarrow> dflt | Some v \<Rightarrow> v)) else map_of d k')"
  by (induction d) auto

lemma keys_dd_update:
  "map fst (dd_update dflt k f d) = (if k \<in> set (map fst d) then map fst d else map fst d @ [k])"
  by (induction d) force+

lemma distinct_dd_update:
  "distinct (map fst d) \<Longrightarrow> distinct (map fst (dd_update dflt k f d))"
  by (simp add: keys_dd_update)

lemma values_dd_update:
  "list_all (\<lambda>kv. P (snd kv)) d \<Longrightarrow> P (f dflt) \<Longrightarrow> (\<And>v. P v \<Longrightarrow> P (f v))
     \<Longrightarrow> list_all (\<lambda>kv. P (snd kv)) (dd_update dflt k f d)"
  by (induction d) auto

lemma values_dict_set:
  "list_all (\<lambda>kv. P (snd kv)) d \<Longrightarrow> P v' \<Longrightarrow> list_all (\<lambda>kv. P (snd kv)) (dict_set k v' d)"
  by (induction d) auto

lemma map_of_dict_set: "map_of (dict_set k v d) k' = (if k' = k then Some v else map_of d k')"
  by (induction d) auto

lemma keys_dict_set:
  "map fst (dict_set k v d) = (if k \<in> set (map fst d) then map fst d else map fst d @ [k])"
  by (induction d) force+

lemma values_map_of: "list_all (\<lambda>kv. P (snd kv)) d \<Longrightarrow> map_of d k = Some v \<Longrightarrow> P v"
  by (induction d) (auto split: if_splits)

subsection \<open>The candidate table\<close>

lemma values_fold_dd_update:
  "list_all (\<lambda>kv. P (snd kv)) cs \<Longrightarrow> (\<And>x. x \<in> set xs \<Longrightarrow> P (f x dflt)) \<Longrightarrow>
   (\<And>x v. x \<in> set xs \<Longrightarrow> P v \<Longrightarrow> P (f x v))
     \<Longrightarrow> list_all (\<lambda>kv. P (snd kv)) (foldl (\<lambda>cs x. dd_update dflt (key x) (f x) cs) cs xs)"
proof (induction xs arbitrary: cs)
  case Nil
  then show ?case by simp
next
  case (Cons x xs)
  have "list_all (\<lambda>kv. P (snd kv)) (dd_update dflt (key x) (f x) cs)"
    using Cons.prems by (intro values_dd_update) auto
  then show ?case using Cons.prems by (auto intro!: Cons.IH)
qed

lemma values_score_file:
  assumes "list_all (\<lambda>kv. P (snd kv)) cands"
    and "\<And>o' amount. map_of fo p = Some o' \<Longrightarrow> amount \<in> {complexity_score o' * 3, complexity_score o' * 1}
           \<Longrightarrow> P (credit_file amount p new_candidate)"
    and "\<And>o' amount v. map_of fo p = Some o' \<Longrightarrow> amount \<in> {complexity_score o' * 3, complexity_score o' * 1}
           \<Longrightarrow> P v \<Longrightarrow> P (credit_file amount p v)"
  shows "list_all (\<lambda>kv. P (snd kv)) (score_file fo cands p)"
proof (cases "map_of fo p")
  case None
  then show ?thesis using assms(1) by (simp add: score_file_def)
next
  case (Some o')
  define c1 where "c1 = (case primary_owner o' of
                       None \<Rightarrow> cands
                     | Some primary \<Rightarrow>
                         if primary = [] then cands
                         else dd_update new_candidate primary
                                (credit_file (complexity_score o' * 3) p) cands)"
  have c1: "list_all (\<lambda>kv. P (snd kv)) c1"
    unfolding c1_def using assms Some
    by (auto split: option.splits intro!: values_dd_update)
  have "list_all (\<lambda>kv. P (snd kv))
          (foldl (\<lambda>cs secondary. dd_update new_candidate (id secondary)
                    ((\<lambda>s. credit_file (complexity_score o' * 1) p) secondary) cs)
             c1 (secondary_owners o'))"
    using c1 assms(2,3) Some by (intro values_fold_dd_update) auto
  then show ?thesis using Some by (simp add: score_file_def c1_def)
qed

lemma values_score_area:
  assumes "list_all (\<lambda>kv. P (snd kv)) cands"
    and "\<And>n. P (credit_area (of_nat n * (1 / 2)) area new_candidate)"
    and "\<And>n v. P v \<Longrightarrow> P (credit_area (of_nat n * (1 / 2)) area v)"
  shows "list_all (\<lambda>kv. P (snd kv)) (score_area ex cands area)"
proof (cases "map_of ex area")
  case None
  then show ?thesis using assms(1) by (simp add: score_area_def)
next
  case (Some ranked)
  have "list_all (\<lambda>kv. P (snd kv))
          (foldl (\<lambda>cs x. dd_update new_candidate (fst x)
                    ((\<lambda>x. credit_area (of_nat (snd x) * (1 / 2)) area) x) cs)
             cands (take 3 ranked))"
    using assms by (intro values_fold_dd_update) auto
  then show ?thesis using Some by (simp add: score_area_def case_prod_unfold)
qed

lemma values_foldl:
  "list_all (\<lambda>kv. P (snd kv)) cs \<Longrightarrow>
   (\<And>cs x. list_all (\<lambda>kv. P (snd kv)) cs \<Longrightarrow> list_all (\<lambda>kv. P (snd kv)) (step cs x))
     \<Longrightarrow> list_all (\<lambda>kv. P (snd kv)) (foldl step cs xs)"
  by (induction xs arbitrary: cs) auto

lemma candidate_table_credited:
  "list_all (\<lambda>kv. credited (snd kv)) (candidate_table ctx own aff)"
  unfolding candidate_table_def Let_def
  by (intro values_foldl values_score_area values_score_file)
     (auto simp: credited_def credit_file_def credit_area_def new_candidate_def)

lemma candidate_table_nonneg:
  assumes "list_all (\<lambda>kv. 0 \<le> complexity_score (snd kv)) (file_ownership own)"
  shows "list_all (\<lambda>kv. nonneg_scores (snd kv)) (candidate_table ctx own aff)"
proof -
  have c: "\<And>p o'. map_of (file_ownership own) p = Some o' \<Longrightarrow> 0 \<le> complexity_score o'"
    using values_map_of [OF assms] by blast
  show ?thesis
    unfolding candidate_table_def Let_def
    by (intro values_foldl values_score_area values_score_file)
       (auto simp: nonneg_scores_def credit_file_def credit_area_def new_candidate_def dest: c)
qed

lemma body_member:
  assumes "a \<in> set (find_potential_assignees_body ctx own aff)"
  shows "\<exists>c. (developer a, c) \<in> set (candidate_table ctx own aff)
           \<and> (0 < ownership_score' c \<or> 0 < expertise_score' c)
           \<and> total_score a = ownership_score' c + expertise_score' c
           \<and> ownership_score a = ownership_score' c
           \<and> expertise_score a = expertise_score' c
           \<and> files_owned a = files_owned' c
           \<and> areas_of_expertise a = areas_of_expertise' c"
  using assms by (auto simp: find_potential_assignees_body_def)

lemma body_credited:
  assumes "a \<in> set (find_potential_assignees_body ctx own aff)"
  shows "(ownership_score a \<noteq> 0 \<longrightarrow> files_owned a \<noteq> [])
         \<and> (expertise_score a \<noteq> 0 \<longrightarrow> areas_of_expertise a \<noteq> [])"
proof -
  obtain c where c: "(developer a, c) \<in> set (candidate_table ctx own aff)"
    "ownership_score a = ownership_score' c" "expertise_score a = expertise_score' c"
    "files_owned a = files_owned' c" "areas_of_expertise a = areas_of_expertise' c"
    using body_member [OF assms] by blast
  have "credited c"
    using candidate_table_credited [of ctx own aff] c(1) by (auto simp: list_all_iff)
  then show ?thesis using c by (simp add: credited_def)
qed

lemma body_positive:
  assumes "list_all (\<lambda>kv. 0 \<le> complexity_score (snd kv)) (file_ownership own)"
    and "a \<in> set (find_potential_assignees_body ctx own aff)"
  shows "0 < total_score a \<and> (files_owned a \<noteq> [] \<or> areas_of_expertise a \<noteq> [])"
proof -
  obtain c where c: "(developer a, c) \<in> set (candidate_table ctx own aff)"
    "0 < ownership_score' c \<or> 0 < expertise_score' c"
    "total_score a = ownership_score' c + expertise_score' c"
    "files_owned a = files_owned' c" "areas_of_expertise a = areas_of_expertise' c"
    using body_member [OF assms(2)] by blast
  have "credited c"
    using candidate_table_credited [of ctx own aff] c(1) by (auto simp: list_all_iff)
  moreover have "nonneg_scores c"
    using candidate_table_nonneg [OF assms(1), of ctx aff] c(1) by (auto simp: list_all_iff)
  ultimately show ?thesis using c by (auto simp: credited_def nonneg_scores_def)
qed

lemma priority_multiplier_pos: "0 < priority_multiplier p"
  by (simp add: priority_multiplier_def split: option.splits)

lemma rank_assignees_member:
  assumes "r \<in> set (rank_assignees pot bd)"
  shows "\<exists>a \<in> set pot. developer r = developer a \<and> files_owned r = files_owned a
           \<and> areas_of_expertise r = areas_of_expertise a
           \<and> ownership_score r = ownership_score a \<and> expertise_score r = expertise_score a
           \<and> total_score r = total_score a
           \<and> final_score r = total_score a * priority_multiplier (priority bd)"
  using assms by (auto simp: rank_assignees_def Let_def)

lemma select_final_assignee_member:
  "select_final_assignee available ranked repo = Some r \<Longrightarrow> r \<in> set ranked"
  by (auto simp: select_final_assignee_def find_Some_iff split: if_splits option.splits list.splits
           dest: in_set_takeD)

subsection \<open>The ownership analysis\<close>

lemma make_file_ownership_score:
  "make_file_ownership g repo fc path cs a = (Inr fo, a') \<Longrightarrow>
     0 \<le> complexity_score fo \<and> complexity_score fo \<le> 1"
  using complexity_score_range
  by (auto simp: make_file_ownership_def Let_def split: prod.splits option.splits)

lemma make_ownership_map_scores:
  "list_all (\<lambda>kv. 0 \<le> complexity_score (snd kv) \<and> complexity_score (snd kv) \<le> 1) acc \<Longrightarrow>
   make_ownership_map g repo fc fo acc a = (Inr m, a') \<Longrightarrow>
     list_all (\<lambda>kv. 0 \<le> complexity_score (snd kv) \<and> complexity_score (snd kv) \<le> 1) m"
proof (induction fo arbitrary: acc a)
  case Nil
  then show ?case by simp
next
  case (Cons pc fo)
  obtain path cs where pc: "pc = (path, cs)" by (cases pc)
  obtain res a1 where r: "make_file_ownership g repo fc path cs a = (res, a1)"
    by (cases "make_file_ownership g repo fc path cs a")
  show ?case
  proof (cases res)
    case (Inl e)
    then show ?thesis using Cons.prems(2) pc r by simp
  next
    case (Inr rec)
    have "list_all (\<lambda>kv. 0 \<le> complexity_score (snd kv) \<and> complexity_score (snd kv) \<le> 1)
            (dict_set path rec acc)"
      using Cons.prems(1) make_file_ownership_score [of g repo fc path cs a rec a1] r Inr
      by (intro values_dict_set) auto
    then show ?thesis using Cons.IH [of "dict_set path rec acc" a1] Cons.prems(2) pc r Inr
      by simp
  qed
qed

lemma analyze_scores:
  assumes "analyze_repository_ownership g repo a = (Inr own, a')"
  shows "list_all (\<lambda>kv. 0 \<le> complexity_score (snd kv) \<and> complexity_score (snd kv) \<le> 1)
           (file_ownership own)"
proof -
  obtain commits a1 where 1: "get_recent_commits g repo a = (commits, a1)"
    by (cases "get_recent_commits g repo a")
  obtain acc a2 where 2: "account_commits g repo commits empty_accumulators a1 = (acc, a2)"
    by (cases "account_commits g repo commits empty_accumulators a1")
  obtain res a3 where 3:
    "make_ownership_map g repo (file_complexity_acc acc) (file_ownership_acc acc) [] a2 = (res, a3)"
    by (cases "make_ownership_map g repo (file_complexity_acc acc) (file_ownership_acc acc) [] a2")
  from assms 1 2 3 obtain m where m: "res = Inr m" "file_ownership own = m"
    by (auto simp: analyze_repository_ownership_def split: sum.splits)
  show ?thesis
    using make_ownership_map_scores [of "[]" g repo "file_complexity_acc acc"
        "file_ownership_acc acc" a2 m a3] 3 m by simp
qed

text \<open>The analysis never raises: every file with ownership data has complexity data.\<close>

lemma key_set_dd_update: "fst ` set (dd_update dflt k f d) = insert k (fst ` set d)"
  using arg_cong [OF keys_dd_update [of dflt k f d], of set] by auto

lemma key_set_dict_set: "fst ` set (dict_set k v d) = insert k (fst ` set d)"
  using arg_cong [OF keys_dict_set [of k v d], of set] by auto

lemma key_set_map_entry:
  "fst ` set (map (\<lambda>(p, cd). if p = path then (p, f cd) else (p, cd)) d) = fst ` set d"
  by (induction d) auto

lemma account_file_keys:
  "fst ` set (file_ownership_acc acc) \<subseteq> fst ` set (file_complexity_acc acc) \<Longrightarrow>
   fst ` set (file_ownership_acc (account_file author acc fi))
     \<subseteq> fst ` set (file_complexity_acc (account_file author acc fi))"
  by (auto simp: account_file_def Let_def key_set_dd_update key_set_dict_set key_set_map_entry
           simp del: set_map dest: map_of_SomeD intro: rev_image_eqI)

lemma foldl_account_file_keys:
  "fst ` set (file_ownership_acc acc) \<subseteq> fst ` set (file_complexity_acc acc) \<Longrightarrow>
   fst ` set (file_ownership_acc (foldl (account_file author) acc fs))
     \<subseteq> fst ` set (file_complexity_acc (foldl (account_file author) acc fs))"
proof (induction fs arbitrary: acc)
  case Nil
  then show ?case by simp
next
  case (Cons f fs)
  show ?case using Cons.IH [OF account_file_keys [OF Cons.prems]] by simp
qed

lemma account_commits_keys:
  "fst ` set (file_ownership_acc acc) \<subseteq> fst ` set (file_complexity_acc acc) \<Longrightarrow>
   account_commits g repo cs acc a = (acc', a') \<Longrightarrow>
   fst ` set (file_ownership_acc acc') \<subseteq> fst ` set (file_complexity_acc acc')"
proof (induction cs arbitrary: acc a)
  case Nil
  then show ?case by simp
next
  case (Cons c cs)
  obtain details a1 where d: "get_commit_details g repo (sha c) a = (details, a1)"
    by (cases "get_commit_details g repo (sha c) a")
  show ?case
    using Cons.IH [OF foldl_account_file_keys [OF Cons.prems(1)]] Cons.prems(2) d
    by (simp add: Let_def)
qed

lemma make_ownership_map_total:
  "fst ` set fo \<subseteq> fst ` set fc \<Longrightarrow>
     \<exists>m a'. make_ownership_map g repo fc fo acc a = (Inr m, a')"
proof (induction fo arbitrary: acc a)
  case Nil
  then show ?case by simp
next
  case (Cons pc fo)
  obtain path cs where pc: "pc = (path, cs)" by (cases pc)
  have "path \<in> fst ` set fc" using Cons.prems pc by auto
  then obtain cd where cd: "map_of fc path = Some cd"
    by (metis map_of_eq_None_iff not_Some_eq)
  obtain t a1 where "get_file_last_modified g repo path a = (t, a1)"
    by (cases "get_file_last_modified g repo path a")
  with cd obtain rec where r: "make_file_ownership g repo fc path cs a = (Inr rec, a1)"
    by (simp add: make_file_ownership_def Let_def)
  have "fst ` set fo \<subseteq> fst ` set fc" using Cons.prems by auto
  from Cons.IH [OF this, of "dict_set path rec acc" a1] show ?case using pc r by simp
qed

lemma analyze_total:
  "\<exists>own a'. analyze_repository_ownership g repo a = (Inr own, a')"
proof -
  obtain commits a1 where 1: "get_recent_commits g repo a = (commits, a1)"
    by (cases "get_recent_commits g repo a")
  obtain acc a2 where 2: "account_commits g repo commits empty_accumulators a1 = (acc, a2)"
    by (cases "account_commits g repo commits empty_accumulators a1")
  have "fst ` set (file_ownership_acc acc) \<subseteq> fst ` set (file_complexity_acc acc)"
    using account_commits_keys [OF _ 2] by (simp add: empty_accumulators_def)
  from make_ownership_map_total [OF this, of g repo "[]" a2]
  obtain m a3 where
    "make_ownership_map g repo (file_complexity_acc acc) (file_ownership_acc acc) [] a2 = (Inr m, a3)"
    by blast
  then show ?thesis using 1 2 by (simp add: analyze_repository_ownership_def)
qed

subsection \<open>What the file pattern returns\<close>

lemma match_extension_is_extension:
  "match_extension ic s = Some g \<Longrightarrow> (if ic then lower g else g) \<in> set file_extensions"
  by (auto simp: match_extension_def find_Some_iff split: option.splits if_splits)

lemma match_file_upto_is_extension:
  "match_file_upto ic s n = Some (g, e) \<Longrightarrow> (if ic then lower g else g) \<in> set file_extensions"
proof (induction n)
  case 0
  then show ?case by simp
next
  case (Suc n)
  then show ?case
    by (auto split: list.splits if_splits option.splits dest: match_extension_is_extension)
qed

lemma findall_files_are_extensions:
  "g \<in> set (findall_files ic s) \<Longrightarrow> (if ic then lower g else g) \<in> set file_extensions"
proof (induction ic s rule: findall_files.induct)
  case (1 ic s)
  show ?case
  proof (cases "match_file ic s")
    case None
    then show ?thesis using 1 by (cases s) (auto simp: findall_files.simps [of ic s])
  next
    case (Some ge)
    obtain g' e where ge: "ge = (g', e)" by (cases ge)
    have "(if ic then lower g' else g') \<in> set file_extensions"
      using Some ge match_file_upto_is_extension by (auto simp: match_file_def)
    then show ?thesis using 1 Some ge by (auto simp: findall_files.simps [of ic s])
  qed
qed

lemma lower_extension: "e \<in> set file_extensions \<Longrightarrow> lower e = e"
  by (auto simp: file_extensions_def lower_def lower_char_def)

subsection \<open>Confidence of a routed report\<close>

lemma routed_final_score_positive:
  assumes "analyze_repository_ownership g repo an = (Inr own, an')"
    and "r \<in> set (rank_assignees (find_potential_assignees_body ctx own aff) bd)"
  shows "0 < final_score r \<and> (files_owned r \<noteq> [] \<or> areas_of_expertise r \<noteq> [])"
proof -
  have nn: "list_all (\<lambda>kv. 0 \<le> complexity_score (snd kv)) (file_ownership own)"
    using analyze_scores [OF assms(1)] by (simp add: list_all_iff)
  obtain a where a: "a \<in> set (find_potential_assignees_body ctx own aff)"
    "files_owned r = files_owned a" "areas_of_expertise r = areas_of_expertise a"
    "final_score r = total_score a * priority_multiplier (priority bd)"
    using rank_assignees_member [OF assms(2)] by blast
  show ?thesis
    using body_positive [OF nn a(1)] a(2,3,4) priority_multiplier_pos [of "priority bd"]
    by simp
qed

lemma route_candidates_confidence:
  "confidence_score (route_candidates pot bd repo ctx own) =
     calculate_confidence (select_final_assignee is_developer_available (rank_assignees pot bd) repo) ctx"
  "assigned_to (route_candidates pot bd repo ctx own) =
     select_final_assignee is_developer_available (rank_assignees pot bd) repo"
  by (simp_all add: route_candidates_def make_routing_decision_def Let_def)

lemma routed_confidence_range:
  assumes "analyze_repository_ownership g repo an = (Inr own, an')"
  shows "0 \<le> confidence_score (route_candidates (find_potential_assignees_body ctx own aff) bd repo' ctx' own')
       \<and> confidence_score (route_candidates (find_potential_assignees_body ctx own aff) bd repo' ctx' own') \<le> 1"
proof (cases "select_final_assignee is_developer_available
                (rank_assignees (find_potential_assignees_body ctx own aff) bd) repo'")
  case None
  then show ?thesis by (simp add: route_candidates_confidence calculate_confidence_def)
next
  case (Some r)
  have "0 < final_score r"
    using routed_final_score_positive [OF assms] select_final_assignee_member [OF Some] by blast
  then show ?thesis
    using calculate_confidence_ge_0 [of r ctx'] calculate_confidence_le_1 [of "Some r" ctx'] Some
    by (simp add: route_candidates_confidence)
qed

subsection \<open>Routing a report\<close>

lemma find_potential_assignees_raises:
  "find_potential_assignees ctx own aff = Inl (NameError ''defaultdict'')"
  by (simp add: find_potential_assignees_def load_defaultdict_def router_module_names_def)

lemma analyzer_module_binds_defaultdict: "load_defaultdict analyzer_module_names = Inr ()"
  by (simp add: load_defaultdict_def analyzer_module_names_def)

lemma extract_bug_context_total:
  "title bd = Some t \<Longrightarrow> description bd = Some d \<Longrightarrow> \<exists>ctx. extract_bug_context bd = Inr ctx"
  by (simp add: extract_bug_context_def Let_def del: findall_files.simps findall_errors.simps findall_functions.simps)

subsection \<open>The requests sent\<close>








subsection \<open>A repository without commits\<close>

lemma analyze_no_commits:
  assumes "fst (get_recent_commits g repo a) = []"
  shows "fst (analyze_repository_ownership g repo a) = Inr empty_ownership"
proof -
  obtain a1 where 1: "get_recent_commits g repo a = ([], a1)"
    using assms by (cases "get_recent_commits g repo a") auto
  show ?thesis
    by (simp add: analyze_repository_ownership_def 1 empty_accumulators_def identify_experts_def
          experts_table_def empty_ownership_def)
qed

lemma score_file_no_ownership: "foldl (score_file []) cands ps = cands"
  by (induction ps arbitrary: cands) (simp_all add: score_file_def)

lemma score_area_no_experts: "foldl (score_area []) cands areas = cands"
  by (induction areas arbitrary: cands) (simp_all add: score_area_def)

lemma body_empty_ownership: "find_potential_assignees_body ctx empty_ownership aff = []"
  by (simp add: find_potential_assignees_body_def candidate_table_def empty_ownership_def
        score_file_no_ownership score_area_no_experts)

lemma route_candidates_none:
  "assigned_to (route_candidates [] bd repo ctx own) = None
   \<and> escalation_needed (route_candidates [] bd repo ctx own)"
  by (simp add: route_candidates_def rank_assignees_def select_final_assignee_def
        make_routing_decision_def)

subsection \<open>Ranking contributors\<close>






lemma distinct_foldl:
  "distinct (map fst cs) \<Longrightarrow>
   (\<And>cs x. distinct (map fst cs) \<Longrightarrow> distinct (map fst (step cs x)))
     \<Longrightarrow> distinct (map fst (foldl step cs xs))"
  by (induction xs arbitrary: cs) auto




subsection \<open>Ownership scores, occurrence by occurrence\<close>

lemma own_of_credit_file:
  "own_of (dd_update new_candidate k (credit_file amt p) cands) d
     = own_of cands d + (if d = k then amt else 0)"
  by (simp add: own_of_def map_of_dd_update credit_file_def new_candidate_def
           split: option.splits)

lemma own_of_credit_area:
  "own_of (dd_update new_candidate k (credit_area amt ar) cands) d = own_of cands d"
  by (simp add: own_of_def map_of_dd_update credit_area_def new_candidate_def
           split: option.splits)

lemma own_of_secondaries:
  "own_of (foldl (\<lambda>cs s. dd_update new_candidate s (credit_file amt p) cs) c1 ss) d
     = own_of c1 d + of_nat (count_list ss d) * amt"
  by (induction ss arbitrary: c1) (simp_all add: own_of_credit_file algebra_simps)

lemma own_of_score_file:
  "own_of (score_file fo cands p) d = own_of cands d + file_credit fo d p"
proof (cases "map_of fo p")
  case None
  then show ?thesis by (simp add: score_file_def file_credit_def)
next
  case (Some ow)
  show ?thesis
  proof (cases "primary_owner ow")
    case None
    then show ?thesis using Some
      by (simp add: score_file_def file_credit_def own_of_secondaries)
  next
    case (Some pr)
    then show ?thesis using \<open>map_of fo p = Some ow\<close>
      by (auto simp: score_file_def file_credit_def own_of_secondaries own_of_credit_file)
  qed
qed

lemma own_of_score_files:
  "own_of (foldl (score_file fo) cands ps) d
     = own_of cands d + sum_list (map (file_credit fo d) ps)"
  by (induction ps arbitrary: cands) (simp_all add: own_of_score_file)

lemma own_of_score_area: "own_of (score_area ex cands area) d = own_of cands d"
proof (cases "map_of ex area")
  case None
  then show ?thesis by (simp add: score_area_def)
next
  case (Some ranked)
  have "own_of (foldl (\<lambda>cs (expert, score).
                   dd_update new_candidate expert (credit_area (of_nat score * (1 / 2)) area) cs)
            cands xs) d = own_of cands d" for xs :: "(string \<times> nat) list"
    by (induction xs arbitrary: cands) (simp_all add: own_of_credit_area case_prod_unfold)
  then show ?thesis using Some by (simp add: score_area_def)
qed

lemma own_of_score_areas: "own_of (foldl (score_area ex) cands areas) d = own_of cands d"
  by (induction areas arbitrary: cands) (simp_all add: own_of_score_area)

lemma own_of_candidate_table:
  "own_of (candidate_table ctx own aff) d
     = sum_list (map (file_credit (file_ownership own) d) (aff @ mentioned_files ctx))"
  by (simp add: candidate_table_def Let_def own_of_score_areas own_of_score_files)
     (simp add: own_of_def)

lemma distinct_score_file: "distinct (map fst cands) \<Longrightarrow> distinct (map fst (score_file fo cands p))"
  by (auto simp: score_file_def Let_def split: option.splits
           intro!: distinct_foldl distinct_dd_update)

lemma distinct_score_area: "distinct (map fst cands) \<Longrightarrow> distinct (map fst (score_area ex cands ar))"
  by (auto simp: score_area_def case_prod_unfold split: option.splits
           intro!: distinct_foldl distinct_dd_update)

lemma distinct_candidate_table: "distinct (map fst (candidate_table ctx own aff))"
  unfolding candidate_table_def Let_def
  by (intro distinct_foldl distinct_score_area distinct_score_file) simp_all

lemma body_ownership_score:
  assumes "a \<in> set (find_potential_assignees_body ctx own aff)"
  shows "ownership_score a = own_of (candidate_table ctx own aff) (developer a)"
proof -
  obtain c where c: "(developer a, c) \<in> set (candidate_table ctx own aff)"
    "ownership_score a = ownership_score' c"
    using body_member [OF assms] by blast
  have "map_of (candidate_table ctx own aff) (developer a) = Some c"
    using c(1) distinct_candidate_table by (rule_tac map_of_is_SomeI) auto
  then show ?thesis using c(2) by (simp add: own_of_def)
qed

section \<open>The sample inputs, evaluated\<close>






lemma findall_files_login:
  "findall_files True ''Crash in src/auth/login.py login fails'' = [''py'']"
  by (simp add: match_file_def match_extension_def file_extensions_def is_path_char_def
        is_word_char_def lower_def lower_char_def)

lemma findall_functions_login:
  "findall_functions ''Crash in src/auth/login.py login fails'' = []"
  by (simp add: match_function_def match_keyword_name_def match_call_def is_word_char_def
        is_space_char_def Let_def)

lemma findall_errors_login:
  "findall_errors ''Crash in src/auth/login.py login fails'' = []"
  by (simp add: match_error_def is_word_char_def Let_def)

lemma areas_login:
  "map fst (filter (\<lambda>(area, kws). \<exists>k \<in> set kws. contains k (lower ''Crash in src/auth/login.py login fails''))
                                     area_keywords) = [''authentication'']"
  by (simp add: area_keywords_def lower_def lower_char_def)

lemma extract_bug_context_login: "extract_bug_context bug_login = Inr context_login"
  by (simp add: extract_bug_context_def bug_login_def context_login_def Let_def
        findall_files_login findall_functions_login findall_errors_login areas_login
        del: findall_files.simps findall_functions.simps findall_errors.simps)

lemma candidate_table_alice:
  "candidate_table context_login own_alice [''src/auth/login.py''] =
     [(''alice'', \<lparr>ownership_score' = 93 / 50, expertise_score' = 0, relevance_score' = 0,
                  files_owned' = [''src/auth/login.py''], areas_of_expertise' = []\<rparr>)]"
  by (simp add: candidate_table_def context_login_def own_alice_def score_file_def score_area_def
        new_candidate_def credit_file_def Let_def)

lemma body_alice:
  "find_potential_assignees_body context_login own_alice [''src/auth/login.py''] = [candidate_alice]"
  by (simp add: find_potential_assignees_body_def candidate_table_alice candidate_alice_def)

lemma get_recent_commits_empty:
  "get_recent_commits gh_empty ''acme/web'' new_analyzer =
     ([], \<lparr>cache = [], sent = [ListCommits ''acme/web'' 1]\<rparr>)"
  by (simp add: get_recent_commits_def gh_empty_def new_analyzer_def
        get_recent_commits_from.simps [of _ _ 1])






lemma candidate_table_path_once:
  "candidate_table context_path own_alice [] =
     [(''alice'', \<lparr>ownership_score' = 93 / 50, expertise_score' = 0, relevance_score' = 0,
                  files_owned' = [''src/auth/login.py''], areas_of_expertise' = []\<rparr>)]"
  by (simp add: candidate_table_def context_path_def own_alice_def score_file_def
        new_candidate_def credit_file_def Let_def)

lemma candidate_table_path_twice:
  "candidate_table context_path own_alice [''src/auth/login.py''] =
     [(''alice'', \<lparr>ownership_score' = 93 / 25, expertise_score' = 0, relevance_score' = 0,
                  files_owned' = [''src/auth/login.py'', ''src/auth/login.py''],
                  areas_of_expertise' = []\<rparr>)]"
  by (simp add: candidate_table_def context_path_def own_alice_def score_file_def
        new_candidate_def credit_file_def Let_def)

lemma candidate_table_affected_twice:
  "candidate_table context_login own_alice [''src/auth/login.py'', ''src/auth/login.py''] =
     [(''alice'', \<lparr>ownership_score' = 93 / 25, expertise_score' = 0, relevance_score' = 0,
                  files_owned' = [''src/auth/login.py'', ''src/auth/login.py''],
                  areas_of_expertise' = []\<rparr>)]"
  by (simp add: candidate_table_def context_login_def own_alice_def score_file_def score_area_def
        new_candidate_def credit_file_def Let_def)

lemma body_path_once: "find_potential_assignees_body context_path own_alice [] = [candidate_alice]"
  by (simp add: find_potential_assignees_body_def candidate_table_path_once candidate_alice_def)

lemma body_path_twice:
  "find_potential_assignees_body context_path own_alice [''src/auth/login.py'']
     = [candidate_alice_twice]"
  by (simp add: find_potential_assignees_body_def candidate_table_path_twice
        candidate_alice_twice_def)

lemma body_affected_twice:
  "find_potential_assignees_body context_login own_alice
     [''src/auth/login.py'', ''src/auth/login.py''] = [candidate_alice_twice]"
  by (simp add: find_potential_assignees_body_def candidate_table_affected_twice
        candidate_alice_twice_def)

lemma file_credit_alice:
  "file_credit (file_ownership own_alice) ''alice'' ''src/auth/login.py'' = 93 / 50"
  by (simp add: file_credit_def own_alice_def)

subsection \<open>Sample confidences and complexity scores\<close>

lemma fl_fifth: "fl (1 / 5) = 3602879701896397 / 18014398509481984"
proof -
  have "fl (1 / 5) = of_int 7205759403792794 / 36028797018963968"
    by (rule fl_value [where m = 3])
       (simp_all add: round_half_even_def floor_rat_numeral Let_def)
  then show ?thesis by simp
qed

lemma fl_9_40: "fl (9 / 40) = 8106479329266893 / 36028797018963968"
proof -
  have "fl (9 / 40) = of_int 8106479329266893 / 36028797018963968"
    by (rule fl_value [where m = 3])
       (simp_all add: round_half_even_def floor_rat_numeral Let_def)
  then show ?thesis by simp
qed

lemma fl_9_40_plus_fifth: "fl (15312238733059687 / 36028797018963968) = 1914029841632461 / 4503599627370496"
proof -
  have "fl (15312238733059687 / 36028797018963968) = of_int 7656119366529844 / 18014398509481984"
    by (rule fl_value [where m = 2])
       (simp_all add: round_half_even_def floor_rat_numeral Let_def)
  then show ?thesis by simp
qed

lemma fl_43_hundredths: "fl (43 / 100) = 7746191359077253 / 18014398509481984"
proof -
  have "fl (43 / 100) = of_int 7746191359077253 / 18014398509481984"
    by (rule fl_value [where m = 2])
       (simp_all add: round_half_even_def floor_rat_numeral Let_def)
  then show ?thesis by simp
qed

lemma fl_half: "fl (1 / 2) = 1 / 2"
proof -
  have "fl (1 / 2) = of_int 4503599627370496 / 9007199254740992"
    by (rule fl_value [where m = 1])
       (simp_all add: round_half_even_def floor_rat_numeral Let_def)
  then show ?thesis by simp
qed

lemma fl_half_plus_fifth: "fl (12610078956637389 / 18014398509481984) = 3152519739159347 / 4503599627370496"
proof -
  have "fl (12610078956637389 / 18014398509481984) = of_int 6305039478318694 / 9007199254740992"
    by (rule fl_value [where m = 1])
       (simp_all add: round_half_even_def floor_rat_numeral Let_def)
  then show ?thesis by simp
qed

lemma fl_seven_tenths_plus_tenth: "fl (28823037615171173 / 36028797018963968) = 7205759403792793 / 9007199254740992"
proof -
  have "fl (28823037615171173 / 36028797018963968) = of_int 7205759403792793 / 9007199254740992"
    by (rule fl_value [where m = 1])
       (simp_all add: round_half_even_def floor_rat_numeral Let_def)
  then show ?thesis by simp
qed

lemma fl_four_fifths: "fl (4 / 5) = 3602879701896397 / 4503599627370496"
proof -
  have "fl (4 / 5) = of_int 7205759403792794 / 9007199254740992"
    by (rule fl_value [where m = 1])
       (simp_all add: round_half_even_def floor_rat_numeral Let_def)
  then show ?thesis by simp
qed

lemma fl_twentieth_by_10: "fl (3602879701896397 / 720575940379279360) = 5764607523034235 / 1152921504606846976"
proof -
  have "fl (3602879701896397 / 720575940379279360) = of_int 5764607523034235 / 1152921504606846976"
    by (rule fl_value [where m = 8])
       (simp_all add: round_half_even_def floor_rat_numeral Let_def)
  then show ?thesis by simp
qed

lemma fl_hundredth: "fl (1 / 100) = 5764607523034235 / 576460752303423488"
proof -
  have "fl (1 / 100) = of_int 5764607523034235 / 576460752303423488"
    by (rule fl_value [where m = 7])
       (simp_all add: round_half_even_def floor_rat_numeral Let_def)
  then show ?thesis by simp
qed




lemma confidence_ann:
  "calculate_confidence (Some (sample_assignee ''ann'' (9 / 4) [''a.py''] [])) ctx
     = 7746191359077253 / 18014398509481984"
  by (simp add: calculate_confidence_def round2_def Let_def sample_assignee_def min_def
        round_half_even_def floor_rat_numeral
        fl_9_40 fl_fifth fl_9_40_plus_fifth fl_43_hundredths)

lemma confidence_bob:
  "calculate_confidence (Some (sample_assignee ''bob'' 5 [''a.py''] [''api''])) ctx
     = 3602879701896397 / 4503599627370496"
  by (simp add: calculate_confidence_def round2_def Let_def sample_assignee_def min_def
        round_half_even_def floor_rat_numeral
        fl_half fl_fifth fl_one_tenth fl_half_plus_fifth fl_seven_tenths_plus_tenth
        fl_four_fifths)

lemma confidence_cy:
  "calculate_confidence
     (Some (sample_assignee ''cy'' (3602879701896397 / 72057594037927936) [] [])) ctx
     = 5764607523034235 / 576460752303423488"
  by (simp add: calculate_confidence_def round2_def Let_def sample_assignee_def min_def
        round_half_even_def floor_rat_numeral fl_twentieth_by_10 fl_hundredth)


section \<open>The claims\<close>

subsection \<open>What routing returns\<close>

text \<open>
  Claim C1 says that a report with a title, a description and a repository always gets a
  complete routing decision. The code never returns one: \<open>_find_potential_assignees\<close>
  starts by calling \<open>defaultdict\<close>, a name the module \<open>intelligent_router\<close> neither imports
  nor defines, so every such report ends in \<open>NameError\<close>, after the ownership analysis has
  run.
\<close>

theorem route_bug_report_raises_NameError:
  "repository bd = Some repo \<and> title bd = Some t \<and> description bd = Some d
     \<longrightarrow> fst (route_bug_report g a bd) = Inl (NameError ''defaultdict'')"
proof
  assume h: "repository bd = Some repo \<and> title bd = Some t \<and> description bd = Some d"
  obtain own a' where an: "analyze_repository_ownership g repo a = (Inr own, a')"
    using analyze_total by blast
  obtain ctx where ctx: "extract_bug_context bd = Inr ctx"
    using extract_bug_context_total h by blast
  show "fst (route_bug_report g a bd) = Inl (NameError ''defaultdict'')"
    using h an ctx by (simp add: route_bug_report_def find_potential_assignees_raises)
qed

theorem route_bug_report_raises_NameError_witness:
  "repository bug_login = Some ''acme/web''
   \<and> title bug_login = Some ''Crash in src/auth/login.py''
   \<and> description bug_login = Some ''login fails''
   \<and> fst (route_bug_report gh_alice new_analyzer bug_login) = Inl (NameError ''defaultdict'')"
  using route_bug_report_raises_NameError
    [of bug_login "''acme/web''" "''Crash in src/auth/login.py''" "''login fails''" gh_alice
        new_analyzer]
  by (simp add: bug_login_def)

subsection \<open>Mentioned files\<close>

text \<open>
  Claim C2 says that a path such as \<open>src/auth/login.py\<close> in the report's text ends up in
  \<open>mentioned_files\<close>. The code does not do that. The file pattern has one capturing
  group, around the extension, so \<open>re.findall\<close> returns the extension of each match and
  not the path: every element of \<open>mentioned_files\<close>, for every report, is one of the nine
  extensions in some letter case. For the report \<open>bug_login\<close>, whose title names
  \<open>src/auth/login.py\<close>, the list is \<open>['py']\<close>.
\<close>

theorem mentioned_files_are_extensions:
  "extract_bug_context bd = Inr ctx \<Longrightarrow>
     \<forall>f \<in> set (mentioned_files ctx). lower f \<in> set file_extensions"
proof -
  assume a: "extract_bug_context bd = Inr ctx"
  then obtain t d where td: "title bd = Some t" "description bd = Some d"
    by (auto simp: extract_bug_context_def split: option.splits)
  have "mentioned_files ctx =
          findall_files True (t @ '' '' @ d)
            @ (case stack_trace bd of None \<Rightarrow> []
               | Some st \<Rightarrow> if st = [] then [] else findall_files False st)"
    using a td by (auto simp: extract_bug_context_def Let_def simp del: findall_files.simps)
  then show ?thesis
    using findall_files_are_extensions [of _ True] findall_files_are_extensions [of _ False]
      lower_extension
    by (auto split: option.splits if_splits simp del: findall_files.simps)
qed

theorem mentioned_files_are_extensions_witness:
  "extract_bug_context bug_login = Inr context_login
   \<and> mentioned_files context_login = [''py'']
   \<and> lower ''py'' \<in> set file_extensions
   \<and> ''src/auth/login.py'' \<notin> set (mentioned_files context_login)"
  using mentioned_files_are_extensions [OF extract_bug_context_login] extract_bug_context_login
  by (simp add: context_login_def)

subsection \<open>Contributors with equal counts\<close>




subsection \<open>Reports with a missing field\<close>




subsection \<open>Selection and escalation\<close>

text \<open>
  Claim C6. Whatever the availability oracle answers, the selection returns none exactly
  when the ranked list is empty; it returns the first of the top three candidates that
  the oracle accepts; when the oracle accepts none of the top three it returns the
  top-ranked candidate. With the oracle of the source, which accepts everyone, that is
  the top-ranked candidate. The routing decision carries the selected assignee, and its
  \<open>escalation_needed\<close> is true exactly when there is none.
\<close>

theorem select_final_assignee_spec:
  "(select_final_assignee available ranked repo = None \<longleftrightarrow> ranked = [])
   \<and> (\<forall>i < min 3 (length ranked).
         available (developer (ranked ! i)) \<and> (\<forall>j<i. \<not> available (developer (ranked ! j)))
         \<longrightarrow> select_final_assignee available ranked repo = Some (ranked ! i))
   \<and> (ranked \<noteq> [] \<and> (\<forall>i < min 3 (length ranked). \<not> available (developer (ranked ! i)))
        \<longrightarrow> select_final_assignee available ranked repo = Some (hd ranked))
   \<and> select_final_assignee is_developer_available ranked repo =
        (case ranked of [] \<Rightarrow> None | r # _ \<Rightarrow> Some r)
   \<and> assigned_to (make_routing_decision (select_final_assignee available ranked repo)
                    ranked ctx own) = select_final_assignee available ranked repo
   \<and> (escalation_needed (make_routing_decision (select_final_assignee available ranked repo)
                            ranked ctx own)
        \<longleftrightarrow> select_final_assignee available ranked repo = None)
   \<and> (escalation_needed (route_candidates potential bd repo ctx own)
        \<longleftrightarrow> assigned_to (route_candidates potential bd repo ctx own) = None)"
  using select_final_assignee_None [of available ranked repo]
    select_final_assignee_first [of _ ranked available repo]
    select_final_assignee_fallback [of ranked available repo]
    select_final_assignee_always_available [of ranked repo]
  by (simp add: make_routing_decision_def route_candidates_def Let_def)

theorem select_final_assignee_spec_witness:
  "select_final_assignee (\<lambda>d. d = ''cy'') sample_ranking ''acme/web''
     = Some (sample_assignee ''cy'' 2 [''b.py''] [])
   \<and> select_final_assignee (\<lambda>d. d = ''dee'') sample_ranking ''acme/web''
     = Some (sample_assignee ''ann'' 4 [''a.py''] [])
   \<and> select_final_assignee (\<lambda>d. d = ''dee'') [] ''acme/web'' = None"
proof -
  have 1: "(2::nat) < min 3 (length sample_ranking)" by (simp add: sample_ranking_def)
  have 2: "(\<lambda>d. d = ''cy'') (developer (sample_ranking ! 2))"
    by (simp add: sample_ranking_def sample_assignee_def)
  have 3: "\<forall>j<2. \<not> (\<lambda>d. d = ''cy'') (developer (sample_ranking ! j))"
    by (simp add: sample_ranking_def sample_assignee_def less_Suc_eq numeral_2_eq_2)
  have 4: "sample_ranking \<noteq> []" by (simp add: sample_ranking_def)
  have 5: "\<forall>i < min 3 (length sample_ranking).
             \<not> (\<lambda>d. d = ''dee'') (developer (sample_ranking ! i))"
    by (simp add: sample_ranking_def sample_assignee_def less_Suc_eq numeral_3_eq_3)
  have a: "select_final_assignee (\<lambda>d. d = ''cy'') sample_ranking ''acme/web''
             = Some (sample_ranking ! 2)"
    using select_final_assignee_spec [of "\<lambda>d. d = ''cy''" sample_ranking "''acme/web''"] 1 2 3
    by blast
  have b: "select_final_assignee (\<lambda>d. d = ''dee'') sample_ranking ''acme/web''
             = Some (hd sample_ranking)"
    using select_final_assignee_spec [of "\<lambda>d. d = ''dee''" sample_ranking "''acme/web''"] 4 5
    by blast
  have c: "select_final_assignee (\<lambda>d. d = ''dee'') [] ''acme/web'' = None"
    using select_final_assignee_spec [of "\<lambda>d. d = ''dee''" "[]" "''acme/web''"] by blast
  show ?thesis using a b c by (simp add: sample_ranking_def)
qed

subsection \<open>The confidence score\<close>

text \<open>
  Claim C7. The confidence is 0 when no assignee is selected; otherwise it is
  \<open>min(final_score / 10, 1.0)\<close>, plus 0.2 capped at 1.0 when \<open>files_owned\<close> is not empty,
  plus 0.1 capped at 1.0 when \<open>areas_of_expertise\<close> is not empty, rounded to two decimal
  places, every step in float arithmetic. It is at most 1; when the final score is not
  negative it is at least 0 and is the double nearest to one of the hundredths from 0.00
  to 1.00. It does not decrease when the final score grows, when \<open>files_owned\<close> becomes
  non-empty or when \<open>areas_of_expertise\<close> becomes non-empty.
\<close>

theorem calculate_confidence_spec:
  "calculate_confidence None ctx = 0
   \<and> calculate_confidence (Some a) ctx =
       fl (of_int (round_half_even
             ((let c0 = min (fl (final_score a / 10)) 1;
                   c1 = (if files_owned a \<noteq> [] then min (fl (c0 + fl (2 / 10))) 1 else c0)
               in if areas_of_expertise a \<noteq> [] then min (fl (c1 + fl (1 / 10))) 1 else c1)
              * 100)) / 100)
   \<and> calculate_confidence (Some a) ctx \<le> 1
   \<and> (0 \<le> final_score a
        \<longrightarrow> 0 \<le> calculate_confidence (Some a) ctx
            \<and> (\<exists>k. 0 \<le> k \<and> k \<le> 100 \<and> calculate_confidence (Some a) ctx = fl (of_int k / 100)))
   \<and> (final_score a \<le> final_score b
        \<and> (files_owned a \<noteq> [] \<longrightarrow> files_owned b \<noteq> [])
        \<and> (areas_of_expertise a \<noteq> [] \<longrightarrow> areas_of_expertise b \<noteq> [])
        \<longrightarrow> calculate_confidence (Some a) ctx \<le> calculate_confidence (Some b) ctx)"
proof -
  have 1: "calculate_confidence None ctx = 0" by (simp add: calculate_confidence_def)
  have 2: "calculate_confidence (Some a) ctx =
       fl (of_int (round_half_even
             ((let c0 = min (fl (final_score a / 10)) 1;
                   c1 = (if files_owned a \<noteq> [] then min (fl (c0 + fl (2 / 10))) 1 else c0)
               in if areas_of_expertise a \<noteq> [] then min (fl (c1 + fl (1 / 10))) 1 else c1)
              * 100)) / 100)"
    by (simp only: calculate_confidence_Some round2_def)
  show ?thesis
    using 1 2 calculate_confidence_le_1 [of "Some a" ctx] calculate_confidence_ge_0 [of a ctx]
      calculate_confidence_hundredths [of a ctx] calculate_confidence_mono [of a b ctx ctx]
    by blast
qed

theorem calculate_confidence_spec_witness:
  "0 \<le> calculate_confidence (Some (sample_assignee ''ann'' (9 / 4) [''a.py''] [])) context_login
   \<and> calculate_confidence (Some (sample_assignee ''ann'' (9 / 4) [''a.py''] [])) context_login
       \<le> calculate_confidence (Some (sample_assignee ''bob'' 5 [''a.py''] [''api''])) context_login
   \<and> calculate_confidence (Some (sample_assignee ''ann'' (9 / 4) [''a.py''] [])) context_login
       = 7746191359077253 / 18014398509481984
   \<and> calculate_confidence (Some (sample_assignee ''bob'' 5 [''a.py''] [''api''])) context_login
       = 3602879701896397 / 4503599627370496
   \<and> 0 \<le> calculate_confidence
            (Some (sample_assignee ''cy'' (3602879701896397 / 72057594037927936) [] []))
            context_login
   \<and> calculate_confidence
        (Some (sample_assignee ''cy'' (3602879701896397 / 72057594037927936) [] []))
        context_login
       = 5764607523034235 / 576460752303423488"
proof -
  have h: "0 \<le> final_score (sample_assignee ''ann'' (9 / 4) [''a.py''] [])"
    "final_score (sample_assignee ''ann'' (9 / 4) [''a.py''] [])
       \<le> final_score (sample_assignee ''bob'' 5 [''a.py''] [''api''])"
    "files_owned (sample_assignee ''bob'' 5 [''a.py''] [''api'']) \<noteq> []"
    "areas_of_expertise (sample_assignee ''bob'' 5 [''a.py''] [''api'']) \<noteq> []"
    "0 \<le> final_score (sample_assignee ''cy'' (3602879701896397 / 72057594037927936) [] [])"
    by (simp_all add: sample_assignee_def)
  have 1: "0 \<le> calculate_confidence (Some (sample_assignee ''ann'' (9 / 4) [''a.py''] []))
                  context_login
           \<and> calculate_confidence (Some (sample_assignee ''ann'' (9 / 4) [''a.py''] []))
                 context_login
               \<le> calculate_confidence (Some (sample_assignee ''bob'' 5 [''a.py''] [''api'']))
                    context_login"
    using calculate_confidence_spec
      [of context_login "sample_assignee ''ann'' (9 / 4) [''a.py''] []"
          "sample_assignee ''bob'' 5 [''a.py''] [''api'']"]
      h(1-4)
    by blast
  have 2: "0 \<le> calculate_confidence
                  (Some (sample_assignee ''cy'' (3602879701896397 / 72057594037927936) [] []))
                  context_login"
    using calculate_confidence_spec
      [of context_login "sample_assignee ''cy'' (3602879701896397 / 72057594037927936) [] []"
          "sample_assignee ''cy'' (3602879701896397 / 72057594037927936) [] []"]
      h(5)
    by blast
  show ?thesis
    using 1 2 confidence_ann [of context_login] confidence_bob [of context_login]
      confidence_cy [of context_login]
    by blast
qed

subsection \<open>The complexity score\<close>




subsection \<open>No change events\<close>

text \<open>
  Claim C9. Its first half holds: when the change-event source returns no commits, the
  analysis raises nothing and returns an ownership model with three empty mappings. Its
  second half says that routing any report against that model gives no assignee and
  \<open>escalation_needed\<close>. Candidate discovery on the empty model has nothing to return, and
  steps 4 to 6 turn an empty candidate list into exactly that decision; but
  \<open>route_bug_report\<close> never gets there, because \<open>_find_potential_assignees\<close> raises
  \<open>NameError\<close> on its first statement. A complete report routed against an empty
  repository ends in that error and not in an escalation.
\<close>

theorem empty_history_routing:
  "fst (get_recent_commits g repo a) = []
     \<longrightarrow> fst (analyze_repository_ownership g repo a) = Inr empty_ownership
         \<and> find_potential_assignees_body ctx empty_ownership aff = []
         \<and> assigned_to (route_candidates [] bd repo ctx empty_ownership) = None
         \<and> escalation_needed (route_candidates [] bd repo ctx empty_ownership)
         \<and> (repository bd = Some repo \<and> title bd = Some t \<and> description bd = Some d
              \<longrightarrow> fst (route_bug_report g a bd) = Inl (NameError ''defaultdict''))"
proof (intro impI conjI)
  assume h: "fst (get_recent_commits g repo a) = []"
  show "fst (analyze_repository_ownership g repo a) = Inr empty_ownership"
    using h by (rule analyze_no_commits)
  show "find_potential_assignees_body ctx empty_ownership aff = []"
    by (rule body_empty_ownership)
  show "assigned_to (route_candidates [] bd repo ctx empty_ownership) = None"
    using route_candidates_none by blast
  show "escalation_needed (route_candidates [] bd repo ctx empty_ownership)"
    using route_candidates_none by blast
next
  assume h: "fst (get_recent_commits g repo a) = []"
    and b: "repository bd = Some repo \<and> title bd = Some t \<and> description bd = Some d"
  obtain a' where an: "analyze_repository_ownership g repo a = (Inr empty_ownership, a')"
    using analyze_no_commits [OF h] by (cases "analyze_repository_ownership g repo a") auto
  obtain c where c: "extract_bug_context bd = Inr c"
    using extract_bug_context_total b by blast
  show "fst (route_bug_report g a bd) = Inl (NameError ''defaultdict'')"
    using b an c by (simp add: route_bug_report_def find_potential_assignees_raises)
qed

theorem empty_history_routing_witness:
  "fst (get_recent_commits gh_empty ''acme/web'' new_analyzer) = []
   \<and> fst (analyze_repository_ownership gh_empty ''acme/web'' new_analyzer) = Inr empty_ownership
   \<and> repository bug_login = Some ''acme/web''
   \<and> title bug_login = Some ''Crash in src/auth/login.py''
   \<and> description bug_login = Some ''login fails''
   \<and> fst (route_bug_report gh_empty new_analyzer bug_login) = Inl (NameError ''defaultdict'')"
proof -
  have 1: "fst (get_recent_commits gh_empty ''acme/web'' new_analyzer) = []"
    by (simp add: get_recent_commits_empty)
  have 2: "repository bug_login = Some ''acme/web''
           \<and> title bug_login = Some ''Crash in src/auth/login.py''
           \<and> description bug_login = Some ''login fails''"
    by (simp add: bug_login_def)
  show ?thesis
    using empty_history_routing
      [of gh_empty "''acme/web''" new_analyzer context_login "[]" bug_login
          "''Crash in src/auth/login.py''" "''login fails''"] 1 2
    by blast
qed

end
